theory Spec2Isabelle
  imports Complex_Main "HOL-Library.Multiset"
begin

section \<open>Python values\<close>

text \<open>
  Numbers of the program (edge weights, coordinates, priorities) are modelled as exact
  reals: the rounding of IEEE doubles is outside this model.  Vertex ids are natural
  numbers, so Python's negative indices are written out only where the program reads
  ids from its input (the map loader) and where \<open>pathfind\<close> follows the \<open>prev\<close> list of
  a search, which \<open>bfs\<close> fills with \<open>-1\<close>.  Every exception the modelled code can raise
  is a value of \<open>py_error\<close>.
\<close>

datatype py_error = IndexError | ZeroDivisionError | KeyError | ValueError | TypeError | Exception string

section \<open>Vector2D.py\<close>

datatype Vec2D = Vec2D (vx: real) (vy: real)

definition squared_magnitude :: "Vec2D \<Rightarrow> real" where
  "squared_magnitude v = (vx v)\<^sup>2 + (vy v)\<^sup>2"

definition magnitude :: "Vec2D \<Rightarrow> real" where
  "magnitude v = sqrt (squared_magnitude v)"

definition scalar_multiply :: "Vec2D \<Rightarrow> real \<Rightarrow> Vec2D" where
  "scalar_multiply v factor = Vec2D (vx v * factor) (vy v * factor)"

definition vec_add :: "Vec2D \<Rightarrow> Vec2D \<Rightarrow> Vec2D" where
  "vec_add vec1 vec2 = Vec2D (vx vec1 + vx vec2) (vy vec1 + vy vec2)"

definition vec_sub :: "Vec2D \<Rightarrow> Vec2D \<Rightarrow> Vec2D" where
  "vec_sub vec1 vec2 = Vec2D (vx vec1 - vx vec2) (vy vec1 - vy vec2)"

definition lerp :: "Vec2D \<Rightarrow> Vec2D \<Rightarrow> real \<Rightarrow> Vec2D" where
  "lerp vec1 vec2 lerp_factor =
     vec_add (scalar_multiply vec1 (1 - lerp_factor)) (scalar_multiply vec2 lerp_factor)"

definition squared_distance_between :: "Vec2D \<Rightarrow> Vec2D \<Rightarrow> real" where
  "squared_distance_between vec1 vec2 = squared_magnitude (vec_sub vec1 vec2)"

definition distance_between :: "Vec2D \<Rightarrow> Vec2D \<Rightarrow> real" where
  "distance_between vec1 vec2 = magnitude (vec_sub vec1 vec2)"

text \<open>
  \<open>intersect\<close>: the first component says whether the two segments are taken to
  intersect, the second is the intersection point when a single one was computed.  No
  division below has a zero divisor: each is guarded by the tests before it.
\<close>

definition intersect :: "Vec2D \<Rightarrow> Vec2D \<Rightarrow> Vec2D \<Rightarrow> Vec2D \<Rightarrow> bool \<times> Vec2D option" where
  "intersect line1_start line1_end line2_start line2_end =
    (let line1_min_x = min (vx line1_start) (vx line1_end);
         line1_max_x = max (vx line1_start) (vx line1_end);
         line2_min_x = min (vx line2_start) (vx line2_end);
         line2_max_x = max (vx line2_start) (vx line2_end)
     in if line1_min_x \<ge> line2_max_x \<or> line1_max_x \<le> line2_min_x then (False, None)
     else
      (let line1_min_y = min (vy line1_start) (vy line1_end);
           line1_max_y = max (vy line1_start) (vy line1_end);
           line2_min_y = min (vy line2_start) (vy line2_end);
           line2_max_y = max (vy line2_start) (vy line2_end)
       in if line1_min_y \<ge> line2_max_y \<or> line1_max_y \<le> line2_min_y then (False, None)
       else
        (let line1_vec = vec_sub line1_end line1_start;
             line2_vec = vec_sub line2_end line2_start
         in if vx line1_vec = 0 \<or> vx line2_vec = 0 then (True, None)
         else
          (let line1_grad = vy line1_vec / vx line1_vec;
               line2_grad = vy line2_vec / vx line2_vec;
               line1_intercept = vy line1_start - vx line1_start * line1_grad;
               line2_intercept = vy line2_start - vx line2_start * line2_grad
           in if line1_grad = line2_grad
              then (if line1_intercept = line2_intercept then (True, None) else (False, None))
              else
               (let intersect_x = (line2_intercept - line1_intercept) / (line1_grad - line2_grad);
                    min_x = max line1_min_x line2_min_x;
                    max_x = min line1_max_x line2_max_x
                in if intersect_x < min_x \<or> intersect_x > max_x then (False, None)
                else
                 (let intersect_y = line1_grad * intersect_x + line1_intercept;
                      min_y = max line1_min_y line2_min_y;
                      max_y = min line1_max_y line2_max_y
                  in if intersect_y < min_y \<or> intersect_y > max_y then (False, None)
                     else (True, Some (Vec2D intersect_x intersect_y))))))))"

definition get_closest_point_vector :: "Vec2D \<Rightarrow> Vec2D \<Rightarrow> Vec2D \<Rightarrow> Vec2D" where
  "get_closest_point_vector wall_start_pos wall_end_pos point_pos =
    (if vx wall_end_pos - vx wall_start_pos = 0 then Vec2D (vx wall_start_pos) (vy point_pos)
     else if vy wall_end_pos - vy wall_start_pos = 0 then Vec2D (vx point_pos) (vy wall_start_pos)
     else
      (let wall_vec = vec_sub wall_end_pos wall_start_pos;
           grad = vy wall_vec / vx wall_vec;
           intercept = vy wall_start_pos - grad * vx wall_start_pos;
           perp_grad = - 1 / grad;
           perp_intercept = vy point_pos - perp_grad * vx point_pos;
           intersection_x = (perp_intercept - intercept) / (grad - perp_grad);
           intersection_y = grad * intersection_x + intercept
       in Vec2D intersection_x intersection_y))"

definition get_closest_point :: "Vec2D \<Rightarrow> Vec2D \<Rightarrow> Vec2D \<Rightarrow> Vec2D option" where
  "get_closest_point wall_start_pos wall_end_pos point_pos =
    (let min_x = min (vx wall_start_pos) (vx wall_end_pos);
         max_x = max (vx wall_start_pos) (vx wall_end_pos);
         min_y = min (vy wall_start_pos) (vy wall_end_pos);
         max_y = max (vy wall_start_pos) (vy wall_end_pos);
         point = get_closest_point_vector wall_start_pos wall_end_pos point_pos
     in if min_x \<le> vx point \<and> vx point \<le> max_x \<and> min_y \<le> vy point \<and> vy point \<le> max_y
        then Some point else None)"

section \<open>SquareMatrix.py\<close>

type_synonym SquareMat = "real list list"

definition SquareMat :: "nat \<Rightarrow> SquareMat" where
  "SquareMat n = replicate n (replicate n 0)"

definition get_item :: "SquareMat \<Rightarrow> nat \<Rightarrow> nat \<Rightarrow> real" where
  "get_item m x y = m ! x ! y"

definition set_item :: "SquareMat \<Rightarrow> nat \<Rightarrow> nat \<Rightarrow> real \<Rightarrow> bool \<Rightarrow> SquareMat" where
  "set_item m x y num mirrored =
    (let m1 = m[x := (m ! x)[y := num]]
     in if mirrored then m1[y := (m1 ! y)[x := num]] else m1)"

definition expand :: "SquareMat \<Rightarrow> SquareMat" where
  "expand m = map (\<lambda>row. row @ [0]) m @ [replicate (length m + 1) 0]"

definition pop_at :: "nat \<Rightarrow> 'a list \<Rightarrow> 'a list" where
  "pop_at k xs = take k xs @ drop (Suc k) xs"

definition delete_row_column :: "SquareMat \<Rightarrow> nat \<Rightarrow> SquareMat" where
  "delete_row_column m row_col_num = map (pop_at row_col_num) (pop_at row_col_num m)"

section \<open>Graph.py: Graph and WeightedGraph\<close>

text \<open>
  Every graph of the program that the claims speak about is a \<open>WeightedGraph\<close>; the
  methods it inherits from \<open>Graph\<close> are modelled on the same record.  The class keeps
  the matrix square and as large as the list of positions (\<open>wf_graph\<close>); the matrix
  accessors below are used with ids inside that range, where a Python list access never
  raises.
\<close>

record WeightedGraph =
  adjacency_matrix :: SquareMat
  vertex_positions :: "Vec2D list"
  heuristic_scale :: real

definition WeightedGraph_init :: WeightedGraph where
  "WeightedGraph_init = \<lparr>adjacency_matrix = SquareMat 0, vertex_positions = [], heuristic_scale = 1\<rparr>"

definition vertices :: "WeightedGraph \<Rightarrow> nat" where
  "vertices g = length (vertex_positions g)"

definition wf_graph :: "WeightedGraph \<Rightarrow> bool" where
  "wf_graph g \<longleftrightarrow> length (adjacency_matrix g) = vertices g \<and>
     list_all (\<lambda>row. length row = vertices g) (adjacency_matrix g)"

definition add_vertex :: "WeightedGraph \<Rightarrow> Vec2D \<Rightarrow> WeightedGraph" where
  "add_vertex g position =
     g\<lparr>adjacency_matrix := expand (adjacency_matrix g),
       vertex_positions := vertex_positions g @ [position]\<rparr>"

definition get_edge :: "WeightedGraph \<Rightarrow> nat \<Rightarrow> nat \<Rightarrow> bool" where
  "get_edge g vert1_id vert2_id =
    (if get_item (adjacency_matrix g) vert1_id vert2_id < 0 then False
     else get_item (adjacency_matrix g) vert1_id vert2_id \<noteq> 0)"

definition get_edge_val :: "WeightedGraph \<Rightarrow> nat \<Rightarrow> nat \<Rightarrow> real" where
  "get_edge_val g vert1_id vert2_id = get_item (adjacency_matrix g) vert1_id vert2_id"

text \<open>
  \<open>set_edge\<close> with all its parameters.  The matrix is written before the scale is
  updated; an id outside the matrix raises IndexError, and a zero distance between the
  two positions raises ZeroDivisionError when the scale update is requested.
\<close>

definition set_edge ::
  "WeightedGraph \<Rightarrow> nat \<Rightarrow> nat \<Rightarrow> real \<Rightarrow> bool \<Rightarrow> bool \<Rightarrow> py_error + WeightedGraph" where
  "set_edge g vert1_id vert2_id new_edge_val bi_directional update_heuristic_scale =
    (if \<not> (vert1_id < vertices g \<and> vert2_id < vertices g) then Inl IndexError
     else
      (let g1 = g\<lparr>adjacency_matrix :=
                   set_item (adjacency_matrix g) vert1_id vert2_id new_edge_val bi_directional\<rparr>
       in if update_heuristic_scale then
            (let d = distance_between (vertex_positions g ! vert1_id) (vertex_positions g ! vert2_id)
             in if d = 0 then Inl ZeroDivisionError
                else (let new_heuristic_scale = new_edge_val / d
                      in if new_heuristic_scale < heuristic_scale g
                         then Inr (g1\<lparr>heuristic_scale := new_heuristic_scale\<rparr>)
                         else Inr g1))
          else Inr g1))"

text \<open>\<open>set_edge\<close> called with its default flags (mirrored, no scale update) on ids in range.\<close>

definition set_edge_default :: "WeightedGraph \<Rightarrow> nat \<Rightarrow> nat \<Rightarrow> real \<Rightarrow> WeightedGraph" where
  "set_edge_default g vert1_id vert2_id new_edge_val =
     g\<lparr>adjacency_matrix := set_item (adjacency_matrix g) vert1_id vert2_id new_edge_val True\<rparr>"

definition delete_vertex :: "WeightedGraph \<Rightarrow> nat \<Rightarrow> WeightedGraph" where
  "delete_vertex g vert_id =
     g\<lparr>adjacency_matrix := delete_row_column (adjacency_matrix g) vert_id,
       vertex_positions := pop_at vert_id (vertex_positions g)\<rparr>"

definition heuristic :: "WeightedGraph \<Rightarrow> nat \<Rightarrow> nat \<Rightarrow> real" where
  "heuristic g vert1_id vert2_id =
     distance_between (vertex_positions g ! vert1_id) (vertex_positions g ! vert2_id)
       * heuristic_scale g"

section \<open>Queue.py: DynamicQueue\<close>

record DynamicQueue =
  queue_data :: "nat list"
  back_pointer :: nat

definition DynamicQueue_init :: DynamicQueue where
  "DynamicQueue_init = \<lparr>queue_data = [], back_pointer = 0\<rparr>"

definition front_pointer :: "DynamicQueue \<Rightarrow> int" where
  "front_pointer q = int (length (queue_data q)) - 1"

definition queue_empty :: "DynamicQueue \<Rightarrow> bool" where
  "queue_empty q \<longleftrightarrow> \<not> (front_pointer q - int (back_pointer q) + 1 \<noteq> 0)"

definition enqueue :: "DynamicQueue \<Rightarrow> nat \<Rightarrow> DynamicQueue" where
  "enqueue q item = q\<lparr>queue_data := queue_data q @ [item]\<rparr>"

definition dequeue :: "DynamicQueue \<Rightarrow> py_error + (nat \<times> DynamicQueue)" where
  "dequeue q =
    (if \<not> queue_empty q
     then Inr (queue_data q ! back_pointer q, q\<lparr>back_pointer := back_pointer q + 1\<rparr>)
     else Inl (Exception ''Cannot pop from empty queue.''))"

section \<open>Stack.py and Queue.py: DynamicStack, DynamicBinaryHeap, DynamicPriorityQueue\<close>

type_synonym DynamicStack = "nat list"

definition stack_empty :: "DynamicStack \<Rightarrow> bool" where
  "stack_empty st \<longleftrightarrow> \<not> (int (length st) - 1 + 1 \<noteq> 0)"

definition push :: "DynamicStack \<Rightarrow> nat \<Rightarrow> DynamicStack" where
  "push st item = st @ [item]"

definition pop :: "DynamicStack \<Rightarrow> py_error + (nat \<times> DynamicStack)" where
  "pop st = (if \<not> stack_empty st then Inr (last st, butlast st)
             else Inl (Exception ''Cannot pop from empty stack.''))"

text \<open>
  The heap is the list \<open>__heap_data\<close> of \<open>HeapItem(item, priority)\<close> pairs.  The two
  private loops are called with an index inside the list only.
\<close>

type_synonym ('a, 'p) heap = "('a \<times> 'p) list"

definition parent_index :: "nat \<Rightarrow> nat" where
  "parent_index index = (index - 1) div 2"

definition left_index :: "nat \<Rightarrow> nat" where
  "left_index index = index * 2 + 1"

definition right_index :: "nat \<Rightarrow> nat" where
  "right_index index = index * 2 + 2"

function up_heapify :: "('a, 'p::linorder) heap \<Rightarrow> nat \<Rightarrow> ('a, 'p) heap" where
  "up_heapify h index =
    (if \<not> index = 0 \<and> snd (h ! index) < snd (h ! parent_index index)
     then up_heapify (h[index := h ! parent_index index, parent_index index := h ! index])
            (parent_index index)
     else h)"
  by pat_completeness auto
termination
  by (relation "measure (\<lambda>(h, index). index)") (auto simp: parent_index_def)

definition min_child :: "('a, 'p::linorder) heap \<Rightarrow> nat \<Rightarrow> nat" where
  "min_child h index =
    (let min_index = index;
         min_index = (if snd (h ! left_index index) < snd (h ! min_index)
                      then left_index index else min_index);
         min_index = (if right_index index < length h \<and>
                         snd (h ! right_index index) < snd (h ! min_index)
                      then right_index index else min_index)
     in min_index)"

function down_heapify :: "('a, 'p::linorder) heap \<Rightarrow> nat \<Rightarrow> ('a, 'p) heap" where
  "down_heapify h index =
    (if left_index index < length h then
       (if min_child h index = index then h
        else down_heapify (h[min_child h index := h ! index, index := h ! min_child h index])
               (min_child h index))
     else h)"
  by pat_completeness auto
termination
  by (relation "measure (\<lambda>(h, index). length h - index)")
     (auto simp: min_child_def left_index_def right_index_def Let_def split: if_splits)

declare up_heapify.simps [simp del] down_heapify.simps [simp del]

definition insert_item :: "('a, 'p::linorder) heap \<Rightarrow> 'a \<Rightarrow> 'p \<Rightarrow> ('a, 'p) heap" where
  "insert_item h item priority =
    (let h1 = h @ [(item, priority)] in up_heapify h1 (length h1 - 1))"

definition extract_root ::
  "('a, 'p::linorder) heap \<Rightarrow> py_error + (('a \<times> 'p) \<times> ('a, 'p) heap)" where
  "extract_root h =
    (if length h = 0 then Inl IndexError
     else
      (let root_item = h ! 0;
           h1 = h[0 := h ! (length h - 1)];
           h2 = pop_at (length h1 - 1) h1
       in Inr (root_item, down_heapify h2 0)))"

definition get_index :: "('a, 'p) heap \<Rightarrow> 'a \<Rightarrow> nat option" where
  "get_index h item = find (\<lambda>index. fst (h ! index) = item) [0..<length h]"

definition decrease_priority_or_insert ::
  "('a, 'p::linorder) heap \<Rightarrow> 'a \<Rightarrow> 'p \<Rightarrow> ('a, 'p) heap" where
  "decrease_priority_or_insert h item new_priority =
    (case get_index h item of
       None \<Rightarrow> insert_item h item new_priority
     | Some index \<Rightarrow> up_heapify (h[index := (item, new_priority)]) index)"

text \<open>\<open>DynamicPriorityQueue\<close> holds one heap and passes every call on to it.\<close>

definition pq_empty :: "('a, 'p) heap \<Rightarrow> bool" where
  "pq_empty h \<longleftrightarrow> \<not> (length h \<noteq> 0)"

definition pq_enqueue :: "('a, 'p::linorder) heap \<Rightarrow> 'a \<Rightarrow> 'p \<Rightarrow> ('a, 'p) heap" where
  "pq_enqueue h item priority = insert_item h item priority"

definition pq_dequeue :: "('a, 'p::linorder) heap \<Rightarrow> py_error + ('a \<times> ('a, 'p) heap)" where
  "pq_dequeue h = (case extract_root h of Inl e \<Rightarrow> Inl e | Inr (root_item, h1) \<Rightarrow> Inr (fst root_item, h1))"

definition decrease_priority_or_enqueue ::
  "('a, 'p::linorder) heap \<Rightarrow> 'a \<Rightarrow> 'p \<Rightarrow> ('a, 'p) heap" where
  "decrease_priority_or_enqueue h item new_priority = decrease_priority_or_insert h item new_priority"

section \<open>Graph.py: the searches\<close>

text \<open>
  A search ends in one of three ways: it raises (\<open>Inl\<close>), it returns \<open>None\<close>
  (\<open>Inr None\<close>: no valid path), or it returns the pair \<open>(prev, distances)\<close>.  The
  \<open>while\<close> loops are partial functions into \<open>option\<close>, where \<open>None\<close> stands for a
  loop that never ends; that a search does end is proved where a claim needs it.
  Each \<open>for next_vert in range(self.vertices)\<close> loop is a recursion over the ids still
  to be visited.
\<close>

type_synonym 'd search_result = "py_error + (nat list \<times> 'd list) option"

subsection \<open>bfs\<close>

text \<open>
  The state of the search is \<open>(prev, distances, to_visit)\<close>; \<open>prev\<close> and \<open>distances\<close>
  start at \<open>-1\<close> everywhere, the source included.  \<open>Inl\<close> of \<open>bfs_for\<close> is the
  \<open>return prev, distances\<close> inside the loop.
\<close>

type_synonym bfs_state = "int list \<times> int list \<times> DynamicQueue"

fun bfs_for ::
  "WeightedGraph \<Rightarrow> nat \<Rightarrow> nat \<Rightarrow> nat list \<Rightarrow> bfs_state \<Rightarrow> (int list \<times> int list) + bfs_state" where
  "bfs_for g vert2_id current_vert [] st = Inr st"
| "bfs_for g vert2_id current_vert (next_vert # rest) (prev, distances, to_visit) =
    (if distances ! next_vert = - 1 \<and> get_edge g current_vert next_vert then
       (let distances1 = distances[next_vert := distances ! current_vert + 1];
            prev1 = prev[next_vert := int current_vert]
        in if next_vert = vert2_id then Inl (prev1, distances1)
           else bfs_for g vert2_id current_vert rest (prev1, distances1, enqueue to_visit next_vert))
     else bfs_for g vert2_id current_vert rest (prev, distances, to_visit))"

partial_function (option) bfs_while ::
  "WeightedGraph \<Rightarrow> nat \<Rightarrow> bfs_state \<Rightarrow> (py_error + (int list \<times> int list) option) option" where
  "bfs_while g vert2_id st =
    (case st of (prev, distances, to_visit) \<Rightarrow>
      if queue_empty to_visit then Some (Inr None)
      else
       (case dequeue to_visit of
          Inl e \<Rightarrow> Some (Inl e)
        | Inr (current_vert, to_visit1) \<Rightarrow>
           (case bfs_for g vert2_id current_vert [0..<vertices g] (prev, distances, to_visit1) of
              Inl found \<Rightarrow> Some (Inr (Some found))
            | Inr st1 \<Rightarrow> bfs_while g vert2_id st1)))"

text \<open>
  With no vertex at all the inner loop never reads the matrix and the search returns
  \<open>None\<close>; otherwise a source outside the graph raises IndexError at the first
  \<open>get_edge\<close>.
\<close>

definition bfs ::
  "WeightedGraph \<Rightarrow> nat \<Rightarrow> nat \<Rightarrow> (py_error + (int list \<times> int list) option) option" where
  "bfs g vert1_id vert2_id =
    (if vertices g = 0 then Some (Inr None)
     else if \<not> vert1_id < vertices g then Some (Inl IndexError)
     else bfs_while g vert2_id
            (replicate (vertices g) (- 1), replicate (vertices g) (- 1),
             enqueue DynamicQueue_init vert1_id))"

declare bfs_while.simps [code]

subsection \<open>dfs\<close>

fun dfs_for :: "WeightedGraph \<Rightarrow> nat \<Rightarrow> nat list \<Rightarrow> bool list \<times> DynamicStack \<Rightarrow> bool list \<times> DynamicStack" where
  "dfs_for g current_vert [] st = st"
| "dfs_for g current_vert (next_vert # rest) (found_verts, to_visit) =
    (if \<not> found_verts ! next_vert \<and> get_edge g current_vert next_vert
     then dfs_for g current_vert rest (found_verts[next_vert := True], push to_visit next_vert)
     else dfs_for g current_vert rest (found_verts, to_visit))"

partial_function (option) dfs_while ::
  "WeightedGraph \<Rightarrow> bool list \<times> DynamicStack \<Rightarrow> (py_error + bool list) option" where
  "dfs_while g st =
    (case st of (found_verts, to_visit) \<Rightarrow>
      if stack_empty to_visit then Some (Inr found_verts)
      else
       (case pop to_visit of
          Inl e \<Rightarrow> Some (Inl e)
        | Inr (current_vert, to_visit1) \<Rightarrow>
            dfs_while g (dfs_for g current_vert [0..<vertices g] (found_verts, to_visit1))))"

definition dfs :: "WeightedGraph \<Rightarrow> nat \<Rightarrow> (py_error + bool list) option" where
  "dfs g vert1_id =
    (if \<not> vert1_id < vertices g then Some (Inl IndexError)
     else dfs_while g ((replicate (vertices g) False)[vert1_id := True], push [] vert1_id))"

declare dfs_while.simps [code]

subsection \<open>dijkstra, a_star and greedy\<close>

text \<open>
  The state is \<open>(prev, distances, to_visit)\<close>, with \<open>prev\<close> starting at \<open>0\<close> and
  \<open>distances\<close> at \<open>-1\<close> except for the source.  A source or target outside the graph
  raises IndexError before the loop does anything else.
\<close>

type_synonym search_state = "nat list \<times> real list \<times> (nat, real) heap"

fun dijkstra_for :: "WeightedGraph \<Rightarrow> nat \<Rightarrow> nat list \<Rightarrow> search_state \<Rightarrow> search_state" where
  "dijkstra_for g current_vert [] st = st"
| "dijkstra_for g current_vert (next_vert # rest) (prev, distances, to_visit) =
    (if get_edge g current_vert next_vert then
       (let dist = distances ! current_vert + get_edge_val g current_vert next_vert
        in if distances ! next_vert = - 1 \<or> dist < distances ! next_vert
           then dijkstra_for g current_vert rest
                  (prev[next_vert := current_vert], distances[next_vert := dist],
                   decrease_priority_or_enqueue to_visit next_vert dist)
           else dijkstra_for g current_vert rest (prev, distances, to_visit))
     else dijkstra_for g current_vert rest (prev, distances, to_visit))"

partial_function (option) dijkstra_while ::
  "WeightedGraph \<Rightarrow> nat \<Rightarrow> search_state \<Rightarrow> real search_result option" where
  "dijkstra_while g vert2_id st =
    (case st of (prev, distances, to_visit) \<Rightarrow>
      if pq_empty to_visit then
        (if distances ! vert2_id \<noteq> - 1 then Some (Inr (Some (prev, distances)))
         else Some (Inr None))
      else
       (case pq_dequeue to_visit of
          Inl e \<Rightarrow> Some (Inl e)
        | Inr (current_vert, to_visit1) \<Rightarrow>
            if distances ! vert2_id \<noteq> - 1 \<and> distances ! vert2_id < distances ! current_vert
            then Some (Inr (Some (prev, distances)))
            else dijkstra_while g vert2_id
                   (dijkstra_for g current_vert [0..<vertices g] (prev, distances, to_visit1))))"

definition dijkstra :: "WeightedGraph \<Rightarrow> nat \<Rightarrow> nat \<Rightarrow> real search_result option" where
  "dijkstra g vert1_id vert2_id =
    (if \<not> (vert1_id < vertices g \<and> vert2_id < vertices g) then Some (Inl IndexError)
     else dijkstra_while g vert2_id
            (replicate (vertices g) 0, (replicate (vertices g) (- 1))[vert1_id := 0],
             pq_enqueue [] vert1_id 0))"

declare dijkstra_while.simps [code]

fun a_star_for :: "WeightedGraph \<Rightarrow> nat \<Rightarrow> nat \<Rightarrow> nat list \<Rightarrow> search_state \<Rightarrow> search_state" where
  "a_star_for g vert2_id current_vert [] st = st"
| "a_star_for g vert2_id current_vert (next_vert # rest) (prev, distances, to_visit) =
    (if get_edge g current_vert next_vert then
       (let dist = distances ! current_vert + get_edge_val g current_vert next_vert
        in if distances ! next_vert = - 1 \<or> dist < distances ! next_vert
           then a_star_for g vert2_id current_vert rest
                  (prev[next_vert := current_vert], distances[next_vert := dist],
                   decrease_priority_or_enqueue to_visit next_vert
                     (dist + heuristic g next_vert vert2_id))
           else a_star_for g vert2_id current_vert rest (prev, distances, to_visit))
     else a_star_for g vert2_id current_vert rest (prev, distances, to_visit))"

partial_function (option) a_star_while ::
  "WeightedGraph \<Rightarrow> nat \<Rightarrow> search_state \<Rightarrow> real search_result option" where
  "a_star_while g vert2_id st =
    (case st of (prev, distances, to_visit) \<Rightarrow>
      if pq_empty to_visit then
        (if distances ! vert2_id \<noteq> - 1 then Some (Inr (Some (prev, distances)))
         else Some (Inr None))
      else
       (case pq_dequeue to_visit of
          Inl e \<Rightarrow> Some (Inl e)
        | Inr (current_vert, to_visit1) \<Rightarrow>
            if distances ! vert2_id \<noteq> - 1 \<and>
               distances ! vert2_id < distances ! current_vert + heuristic g current_vert vert2_id
            then Some (Inr (Some (prev, distances)))
            else a_star_while g vert2_id
                   (a_star_for g vert2_id current_vert [0..<vertices g] (prev, distances, to_visit1))))"

definition a_star :: "WeightedGraph \<Rightarrow> nat \<Rightarrow> nat \<Rightarrow> real search_result option" where
  "a_star g vert1_id vert2_id =
    (if \<not> (vert1_id < vertices g \<and> vert2_id < vertices g) then Some (Inl IndexError)
     else a_star_while g vert2_id
            (replicate (vertices g) 0, (replicate (vertices g) (- 1))[vert1_id := 0],
             pq_enqueue [] vert1_id 0))"

declare a_star_while.simps [code]

text \<open>\<open>Inl\<close> of \<open>greedy_for\<close> is the \<open>return prev, distances\<close> inside the loop.\<close>

fun greedy_for ::
  "WeightedGraph \<Rightarrow> nat \<Rightarrow> nat \<Rightarrow> nat list \<Rightarrow> search_state \<Rightarrow> (nat list \<times> real list) + search_state" where
  "greedy_for g vert2_id current_vert [] st = Inr st"
| "greedy_for g vert2_id current_vert (next_vert # rest) (prev, distances, to_visit) =
    (if get_edge g current_vert next_vert \<and> distances ! next_vert = - 1 then
       (let prev1 = prev[next_vert := current_vert];
            distances1 = distances[next_vert :=
                           distances ! current_vert + get_edge_val g current_vert next_vert];
            to_visit1 = pq_enqueue to_visit next_vert (heuristic g next_vert vert2_id)
        in if next_vert = vert2_id then Inl (prev1, distances1)
           else greedy_for g vert2_id current_vert rest (prev1, distances1, to_visit1))
     else greedy_for g vert2_id current_vert rest (prev, distances, to_visit))"

partial_function (option) greedy_while ::
  "WeightedGraph \<Rightarrow> nat \<Rightarrow> search_state \<Rightarrow> real search_result option" where
  "greedy_while g vert2_id st =
    (case st of (prev, distances, to_visit) \<Rightarrow>
      if pq_empty to_visit then Some (Inr None)
      else
       (case pq_dequeue to_visit of
          Inl e \<Rightarrow> Some (Inl e)
        | Inr (current_vert, to_visit1) \<Rightarrow>
           (case greedy_for g vert2_id current_vert [0..<vertices g] (prev, distances, to_visit1) of
              Inl found \<Rightarrow> Some (Inr (Some found))
            | Inr st1 \<Rightarrow> greedy_while g vert2_id st1)))"

definition greedy :: "WeightedGraph \<Rightarrow> nat \<Rightarrow> nat \<Rightarrow> real search_result option" where
  "greedy g vert1_id vert2_id =
    (if \<not> (vert1_id < vertices g \<and> vert2_id < vertices g) then Some (Inl IndexError)
     else greedy_while g vert2_id
            (replicate (vertices g) 0, (replicate (vertices g) (- 1))[vert1_id := 0],
             pq_enqueue [] vert1_id (heuristic g vert1_id vert2_id)))"

declare greedy_while.simps [code]

section \<open>Constants.py and Floor.py\<close>

definition NODE_RADIUS :: real where
  "NODE_RADIUS = 15 / 1000"

definition FLOOR_RATIO :: Vec2D where
  "FLOOR_RATIO = Vec2D (175 / 100) 1"

text \<open>
  A link id is a string when it comes from a map file; \<open>Map.START = 1\<close> and
  \<open>Map.END = 0\<close> are the two integer ids that \<open>pathfind\<close> uses.
\<close>

datatype link_id = StrId string | IntId int

record Link =
  link_id :: link_id
  position :: Vec2D

record Floor =
  walls :: WeightedGraph
  links :: "Link list"

definition THRESHOLD_DIST :: real where
  "THRESHOLD_DIST = (2 * NODE_RADIUS)\<^sup>2"

definition HALF_THRESHOLD_DIST :: real where
  "HALF_THRESHOLD_DIST = NODE_RADIUS\<^sup>2"

definition Floor_init :: "bool \<Rightarrow> Floor" where
  "Floor_init Empty =
    (if Empty then \<lparr>walls = WeightedGraph_init, links = []\<rparr>
     else
      (let w0 = WeightedGraph_init;
           w1 = add_vertex w0 (Vec2D 0 0);
           w2 = add_vertex w1 (Vec2D (vx FLOOR_RATIO) 0);
           w3 = add_vertex w2 (Vec2D (vx FLOOR_RATIO) (vy FLOOR_RATIO));
           w4 = add_vertex w3 (Vec2D 0 (vy FLOOR_RATIO));
           w5 = set_edge_default w4 0 1 2;
           w6 = set_edge_default w5 1 2 2;
           w7 = set_edge_default w6 2 3 2;
           w8 = set_edge_default w7 3 0 2
       in \<lparr>walls = w8, links = []\<rparr>))"

text \<open>
  The pairs \<open>(vert1_id, vert2_id)\<close> in the order in which the nested loops
  \<open>for vert1_id in range(n): for vert2_id in range(vert1_id)\<close> visit them.
\<close>

definition lower_pairs :: "nat \<Rightarrow> (nat \<times> nat) list" where
  "lower_pairs n = concat (map (\<lambda>vert1_id. map (Pair vert1_id) [0..<vert1_id]) [0..<n])"

definition split_wall :: "Floor \<Rightarrow> Vec2D \<Rightarrow> nat \<Rightarrow> nat \<Rightarrow> Floor" where
  "split_wall f split_pos vert1_id vert2_id =
    (let old_val = get_edge_val (walls f) vert1_id vert2_id;
         w1 = add_vertex (walls f) split_pos;
         w2 = set_edge_default w1 vert1_id vert2_id 0;
         w3 = set_edge_default w2 vert1_id (vertices w2 - 1) old_val;
         w4 = set_edge_default w3 vert2_id (vertices w3 - 1) old_val
     in f\<lparr>walls := w4\<rparr>)"

text \<open>
  \<open>place_vertex\<close> returns the id of the placed vertex and the floor after placing it:
  an existing vertex is taken (case 1), or the first wall near enough is split (case 2),
  or a new vertex is appended (case 3).
\<close>

definition place_vertex :: "Floor \<Rightarrow> Vec2D \<Rightarrow> nat \<times> Floor" where
  "place_vertex f new_vert_pos =
    (case find (\<lambda>vert_id. squared_distance_between (vertex_positions (walls f) ! vert_id) new_vert_pos
                            < THRESHOLD_DIST) [0..<vertices (walls f)] of
       Some vert_id \<Rightarrow> (vert_id, f)
     | None \<Rightarrow>
        (case find (\<lambda>(vert1_id, vert2_id).
                      get_edge (walls f) vert1_id vert2_id \<and>
                      (case get_closest_point (vertex_positions (walls f) ! vert1_id)
                              (vertex_positions (walls f) ! vert2_id) new_vert_pos of
                         None \<Rightarrow> False
                       | Some clamped_vert_pos \<Rightarrow>
                           squared_distance_between clamped_vert_pos new_vert_pos < HALF_THRESHOLD_DIST))
                (lower_pairs (vertices (walls f))) of
           Some (vert1_id, vert2_id) \<Rightarrow>
             (let f1 = split_wall f
                         (the (get_closest_point (vertex_positions (walls f) ! vert1_id)
                                 (vertex_positions (walls f) ! vert2_id) new_vert_pos))
                         vert1_id vert2_id
              in (vertices (walls f1) - 1, f1))
         | None \<Rightarrow>
             (let f1 = f\<lparr>walls := add_vertex (walls f) new_vert_pos\<rparr>
              in (vertices (walls f1) - 1, f1))))"

definition check_for_intersections :: "WeightedGraph \<Rightarrow> nat \<Rightarrow> nat \<Rightarrow> bool \<Rightarrow> bool" where
  "check_for_intersections wg wall_start_id wall_end_id skip_case_1 =
    ((\<not> skip_case_1 \<and>
      list_ex (\<lambda>vert_id.
          vert_id \<noteq> wall_start_id \<and> vert_id \<noteq> wall_end_id \<and>
          (let vertex_pos = vertex_positions wg ! vert_id;
               wall_start_pos = vertex_positions wg ! wall_start_id;
               wall_end_pos = vertex_positions wg ! wall_end_id
           in case get_closest_point wall_start_pos wall_end_pos vertex_pos of
                None \<Rightarrow> False
              | Some clamped_closest \<Rightarrow>
                  squared_distance_between vertex_pos clamped_closest \<le> HALF_THRESHOLD_DIST))
        [0..<vertices wg])
     \<or>
     list_ex (\<lambda>(vert1_id, vert2_id).
          get_edge wg vert1_id vert2_id \<and>
          \<not> ((vert1_id = wall_start_id \<or> vert1_id = wall_end_id) \<or>
             (vert2_id = wall_start_id \<or> vert2_id = wall_end_id)) \<and>
          fst (intersect (vertex_positions wg ! vert1_id) (vertex_positions wg ! vert2_id)
                 (vertex_positions wg ! wall_start_id) (vertex_positions wg ! wall_end_id)))
        (lower_pairs (vertices wg)))"

text \<open>
  \<open>check_if_remove\<close> deletes the vertex when no edge leaves it and says whether it did.
  An id that is no longer in the graph raises IndexError (at the first \<open>get_edge\<close>, or at
  the \<open>pop\<close> when the graph is empty).
\<close>

definition check_if_remove :: "Floor \<Rightarrow> nat \<Rightarrow> py_error + (bool \<times> Floor)" where
  "check_if_remove f vert_id =
    (if \<not> vert_id < vertices (walls f) then Inl IndexError
     else if list_ex (\<lambda>vert2_id. get_edge (walls f) vert_id vert2_id) [0..<vertices (walls f)]
     then Inr (False, f)
     else Inr (True, f\<lparr>walls := delete_vertex (walls f) vert_id\<rparr>))"

text \<open>The test of \<open>add_wall\<close> for a wall that runs along one side of the floor.\<close>

definition on_floor_edge :: "Vec2D \<Rightarrow> Vec2D \<Rightarrow> bool" where
  "on_floor_edge start_pos end_pos \<longleftrightarrow>
     (vx start_pos = vx end_pos \<and> vx end_pos = 0) \<or>
     (vx start_pos = vx end_pos \<and> vx end_pos = vx FLOOR_RATIO) \<or>
     (vy start_pos = vy end_pos \<and> vy end_pos = 0) \<or>
     (vy start_pos = vy end_pos \<and> vy end_pos = vy FLOOR_RATIO)"

definition add_wall :: "Floor \<Rightarrow> Vec2D \<Rightarrow> Vec2D \<Rightarrow> py_error + (bool \<times> Floor)" where
  "add_wall f wall_start_pos wall_end_pos =
    (if squared_distance_between wall_start_pos wall_end_pos < THRESHOLD_DIST then Inr (False, f)
     else
      (case place_vertex f wall_start_pos of (wall_start_id, f1) \<Rightarrow>
       case place_vertex f1 wall_end_pos of (wall_end_id, f2) \<Rightarrow>
         if check_for_intersections (walls f2) wall_start_id wall_end_id False then
           (case check_if_remove f2 wall_start_id of
              Inl e \<Rightarrow> Inl e
            | Inr (removed, f3) \<Rightarrow>
               (let offset = (if removed then 1 else 0 :: nat)
                in case check_if_remove f3
                          (wall_end_id - offset * (if wall_start_id < wall_end_id then 1 else 0)) of
                     Inl e \<Rightarrow> Inl e
                   | Inr (_, f4) \<Rightarrow> Inr (False, f4)))
         else if on_floor_edge (vertex_positions (walls f2) ! wall_start_id)
                   (vertex_positions (walls f2) ! wall_end_id)
         then Inr (True, f2\<lparr>walls := set_edge_default (walls f2) wall_start_id wall_end_id 2\<rparr>)
         else Inr (True, f2\<lparr>walls := set_edge_default (walls f2) wall_start_id wall_end_id 1\<rparr>)))"

section \<open>What the claims say, in the spec's words\<close>

text \<open>
  The geometry the specification speaks of, written independently of the code: a point of
  a segment, a segment that passes within a radius of a point, two segments with a common
  point, and a point of the floor's outer rectangle.
\<close>

definition on_segment :: "Vec2D \<Rightarrow> Vec2D \<Rightarrow> Vec2D \<Rightarrow> bool" where
  "on_segment a b p \<longleftrightarrow> (\<exists>t. 0 \<le> t \<and> t \<le> 1 \<and> p = lerp a b t)"

definition passes_within :: "Vec2D \<Rightarrow> Vec2D \<Rightarrow> real \<Rightarrow> Vec2D \<Rightarrow> bool" where
  "passes_within a b r v \<longleftrightarrow> (\<exists>p. on_segment a b p \<and> squared_distance_between v p \<le> r\<^sup>2)"

definition segments_cross :: "Vec2D \<Rightarrow> Vec2D \<Rightarrow> Vec2D \<Rightarrow> Vec2D \<Rightarrow> bool" where
  "segments_cross a b c d \<longleftrightarrow> (\<exists>p. on_segment a b p \<and> on_segment c d p)"

definition on_outer_boundary :: "Vec2D \<Rightarrow> bool" where
  "on_outer_boundary p \<longleftrightarrow>
     ((vx p = 0 \<or> vx p = vx FLOOR_RATIO) \<and> 0 \<le> vy p \<and> vy p \<le> vy FLOOR_RATIO) \<or>
     ((vy p = 0 \<or> vy p = vy FLOOR_RATIO) \<and> 0 \<le> vx p \<and> vx p \<le> vx FLOOR_RATIO)"

text \<open>The two endpoints as \<open>add_wall\<close> places them, and the floor after placing them.\<close>

definition placed_endpoints :: "Floor \<Rightarrow> Vec2D \<Rightarrow> Vec2D \<Rightarrow> nat \<times> nat \<times> Floor" where
  "placed_endpoints f wall_start_pos wall_end_pos =
    (case place_vertex f wall_start_pos of (wall_start_id, f1) \<Rightarrow>
     case place_vertex f1 wall_end_pos of (wall_end_id, f2) \<Rightarrow> (wall_start_id, wall_end_id, f2))"

section \<open>Example floors and graphs\<close>

text \<open>The default floor with one interior wall from \<open>(1/2, 1/4)\<close> to \<open>(1/2, 1/2)\<close>.\<close>

definition floor_short_wall :: Floor where
  "floor_short_wall =
     \<lparr>walls = \<lparr>adjacency_matrix =
            [[0, 2, 0, 2, 0, 0], [2, 0, 2, 0, 0, 0], [0, 2, 0, 2, 0, 0],
             [2, 0, 2, 0, 0, 0], [0, 0, 0, 0, 0, 1], [0, 0, 0, 0, 1, 0]],
          vertex_positions =
            [Vec2D 0 0, Vec2D (7 / 4) 0, Vec2D (7 / 4) 1, Vec2D 0 1,
             Vec2D (1 / 2) (1 / 4), Vec2D (1 / 2) (1 / 2)],
          heuristic_scale = 1\<rparr>,
       links = []\<rparr>"

text \<open>The same floor with its bottom wall split at \<open>(1/4, 0)\<close>.\<close>

definition floor_short_wall_split :: Floor where
  "floor_short_wall_split =
     \<lparr>walls = \<lparr>adjacency_matrix =
            [[0, 0, 0, 2, 0, 0, 2], [0, 0, 2, 0, 0, 0, 2],
             [0, 2, 0, 2, 0, 0, 0], [2, 0, 2, 0, 0, 0, 0],
             [0, 0, 0, 0, 0, 1, 0], [0, 0, 0, 0, 1, 0, 0],
             [2, 2, 0, 0, 0, 0, 0]],
          vertex_positions =
            [Vec2D 0 0, Vec2D (7 / 4) 0, Vec2D (7 / 4) 1, Vec2D 0 1,
             Vec2D (1 / 2) (1 / 4), Vec2D (1 / 2) (1 / 2), Vec2D (1 / 4) 0],
          heuristic_scale = 1\<rparr>,
       links = []\<rparr>"

text \<open>The default floor with a wall from \<open>(1/2, 0)\<close> on its bottom side to \<open>(1/2, 1)\<close> on its top side.\<close>

definition floor_cross_wall :: Floor where
  "floor_cross_wall =
     \<lparr>walls = \<lparr>adjacency_matrix =
            [[0, 0, 0, 2, 2, 0], [0, 0, 2, 0, 2, 0], [0, 2, 0, 0, 0, 2],
             [2, 0, 0, 0, 0, 2], [2, 2, 0, 0, 0, 1], [0, 0, 2, 2, 1, 0]],
          vertex_positions =
            [Vec2D 0 0, Vec2D (7 / 4) 0, Vec2D (7 / 4) 1, Vec2D 0 1,
             Vec2D (1 / 2) 0, Vec2D (1 / 2) 1],
          heuristic_scale = 1\<rparr>,
       links = []\<rparr>"

section \<open>NavigationMesh.py and Map.py: the data\<close>

text \<open>
  The fields of \<open>NavMesh\<close> and of \<open>Map\<close>, private ones included.  A dictionary is a
  partial map.  \<open>LinkTuple(vert_id, link_num)\<close> and
  \<open>LinkTuple2(link_num, floor_num, link_id)\<close> are tuples.
\<close>

record NavMesh =
  num_of_links :: nat
  nav_mesh :: WeightedGraph
  regions :: "nat list list"
  region_positions :: "Vec2D list"
  nav_graph :: WeightedGraph
  edge_vert_ids :: "nat \<times> nat \<rightharpoonup> nat list"
  region_indexed_links :: "nat \<rightharpoonup> nat list"
  old_nav_graph :: "WeightedGraph option"

record Map =
  id_indexed_nodes :: "link_id \<rightharpoonup> nat list"
  floor_indexed_nodes :: "int \<rightharpoonup> (nat \<times> nat) list"
  link_graph_id_indexed_nodes :: "nat \<rightharpoonup> nat \<times> int \<times> link_id"
  reset_data :: "(int \<times> int \<times> NavMesh \<times> NavMesh) option"
  floors :: "int \<rightharpoonup> Floor"
  nav_meshes :: "int \<rightharpoonup> NavMesh"
  link_graph :: WeightedGraph

definition add_link :: "Floor \<Rightarrow> link_id \<Rightarrow> Vec2D \<Rightarrow> Floor" where
  "add_link f lid pos = f\<lparr>links := links f @ [\<lparr>link_id = lid, position = pos\<rparr>]\<rparr>"

section \<open>Map.py: loading a map\<close>

text \<open>
  Python's \<open>int(s)\<close> and \<open>float(s)\<close> are parameters of the loader: \<open>py_int s\<close> is the
  integer that \<open>int(s)\<close> returns, or \<open>None\<close> where it raises ValueError, and likewise
  \<open>py_float\<close>.  \<open>is_int\<close> and \<open>is_float\<close> are \<open>Map.__is_int\<close> and \<open>Map.__is_float\<close>.
\<close>

definition is_int :: "(string \<Rightarrow> int option) \<Rightarrow> string \<Rightarrow> bool" where
  "is_int py_int number \<longleftrightarrow> py_int number \<noteq> None"

definition is_float :: "(string \<Rightarrow> real option) \<Rightarrow> string \<Rightarrow> bool" where
  "is_float py_float number \<longleftrightarrow> py_float number \<noteq> None"

text \<open>\<open>s.split(c)\<close> and \<open>" ".join(ws)\<close>.\<close>

fun split_on :: "char \<Rightarrow> string \<Rightarrow> string list" where
  "split_on c [] = [[]]"
| "split_on c (x # xs) =
    (if x = c then [] # split_on c xs
     else (case split_on c xs of [] \<Rightarrow> [[x]] | w # ws \<Rightarrow> (x # w) # ws))"

fun join_with_space :: "string list \<Rightarrow> string" where
  "join_with_space [] = []"
| "join_with_space [w] = w"
| "join_with_space (w # ws) = w @ '' '' @ join_with_space ws"

text \<open>
  A Python list index: a negative index counts from the end, an index outside the list
  raises IndexError (\<open>None\<close>).
\<close>

definition py_index :: "nat \<Rightarrow> int \<Rightarrow> nat option" where
  "py_index n i =
    (if 0 \<le> i \<and> i < int n then Some (nat i)
     else if - int n \<le> i \<and> i < 0 then Some (nat (int n + i))
     else None)"

text \<open>
  One pass of the loop body of \<open>Map.__init__\<close> over the text of one record.  The state
  is the current \<open>floor_num\<close> and the dictionary of floors.  The conjuncts of each test are
  evaluated from left to right, so \<open>int(line[3])\<close> of a \<open>W\<close> record is only computed
  (and may raise ValueError, \<open>line[3]\<close> having been tested with \<open>__is_float\<close>) after the
  tests before it have passed.
\<close>

type_synonym load_state = "int option \<times> (int \<rightharpoonup> Floor)"

definition load_record ::
  "(string \<Rightarrow> int option) \<Rightarrow> (string \<Rightarrow> real option) \<Rightarrow> load_state \<Rightarrow> string \<Rightarrow>
     py_error + load_state" where
  "load_record py_int py_float st record_text =
    (case st of (floor_num, fs) \<Rightarrow>
     (let line = split_on CHR '' '' record_text in
      if length line = 0 then Inl (Exception ''Invalid file'')
      else if line ! 0 = ''F'' then
        (if length line > 1 \<and> is_int py_int (line ! 1)
         then (let n = the (py_int (line ! 1)) in Inr (Some n, fs(n \<mapsto> Floor_init True)))
         else Inl (Exception ''Invalid file''))
      else if line ! 0 = ''L'' then
        (if floor_num \<noteq> None \<and> length line > 3 \<and>
            is_float py_float (line ! (length line - 2)) \<and>
            is_float py_float (line ! (length line - 1))
         then (case fs (the floor_num) of
                 None \<Rightarrow> Inl KeyError
               | Some f \<Rightarrow>
                   Inr (floor_num,
                        fs(the floor_num \<mapsto>
                           add_link f
                             (StrId (join_with_space (take (length line - 2 - 1) (drop 1 line))))
                             (Vec2D (the (py_float (line ! (length line - 2))))
                                    (the (py_float (line ! (length line - 1))))))))
         else Inl (Exception ''Invalid file''))
      else if line ! 0 = ''V'' then
        (if floor_num \<noteq> None \<and> length line > 2 \<and>
            is_float py_float (line ! 1) \<and> is_float py_float (line ! 2)
         then (case fs (the floor_num) of
                 None \<Rightarrow> Inl KeyError
               | Some f \<Rightarrow>
                   Inr (floor_num,
                        fs(the floor_num \<mapsto>
                           f\<lparr>walls := add_vertex (walls f)
                                         (Vec2D (the (py_float (line ! 1)))
                                                (the (py_float (line ! 2))))\<rparr>)))
         else Inl (Exception ''Invalid file''))
      else if line ! 0 = ''W'' then
        (if floor_num \<noteq> None \<and> length line > 3 \<and> is_float py_float (line ! 1) \<and>
            is_int py_int (line ! 2) \<and> is_float py_float (line ! 3)
         then (case fs (the floor_num) of
                 None \<Rightarrow> Inl KeyError
               | Some f \<Rightarrow>
                  (if the (py_int (line ! 2)) < int (vertices (walls f)) then
                     (case py_int (line ! 3) of
                        None \<Rightarrow> Inl ValueError
                      | Some v2 \<Rightarrow>
                         (if v2 < int (vertices (walls f)) then
                            (case (py_index (vertices (walls f)) (the (py_int (line ! 2))),
                                   py_index (vertices (walls f)) v2) of
                               (Some a, Some b) \<Rightarrow>
                                 Inr (floor_num,
                                      fs(the floor_num \<mapsto>
                                         f\<lparr>walls := set_edge_default (walls f) a b
                                                       (the (py_float (line ! 1)))\<rparr>))
                             | _ \<Rightarrow> Inl IndexError)
                          else Inr st))
                   else Inr st))
         else Inr st)
      else Inl (Exception ''Invalid file'')))"

fun load_records ::
  "(string \<Rightarrow> int option) \<Rightarrow> (string \<Rightarrow> real option) \<Rightarrow> load_state \<Rightarrow> string list \<Rightarrow>
     py_error + load_state" where
  "load_records py_int py_float st [] = Inr st"
| "load_records py_int py_float st (record_text # rest) =
    (case load_record py_int py_float st record_text of
       Inl e \<Rightarrow> Inl e
     | Inr st1 \<Rightarrow> load_records py_int py_float st1 rest)"

text \<open>
  \<open>Map.__init__(data)\<close>: the loop runs over \<open>data[1:]\<close>, the first line being the
  header.  \<open>Inl\<close> is the exception that ends the load.
\<close>

definition Map_init ::
  "(string \<Rightarrow> int option) \<Rightarrow> (string \<Rightarrow> real option) \<Rightarrow> string list option \<Rightarrow> py_error + Map" where
  "Map_init py_int py_float data =
    (let m0 = \<lparr>id_indexed_nodes = Map.empty, floor_indexed_nodes = Map.empty,
               link_graph_id_indexed_nodes = Map.empty, reset_data = None,
               floors = Map.empty, nav_meshes = Map.empty, link_graph = WeightedGraph_init\<rparr>
     in case data of
          None \<Rightarrow> Inr (m0\<lparr>floors := [0 \<mapsto> Floor_init False]\<rparr>)
        | Some records \<Rightarrow>
           (case load_records py_int py_float (None, Map.empty) (drop 1 records) of
              Inl e \<Rightarrow> Inl e
            | Inr (floor_num, fs) \<Rightarrow> Inr (m0\<lparr>floors := fs\<rparr>)))"

section \<open>Sequences of set_edge calls\<close>

text \<open>
  A call \<open>set_edge(vert1_id, vert2_id, new_edge_val, bi_directional,
  update_heuristic_scale=True)\<close> is the tuple of its first four arguments; \<open>set_edges\<close>
  makes the calls of a list one after the other and stops at the first that raises.
  \<open>written\<close> lists the matrix cells the calls write.
\<close>

type_synonym set_edge_call = "nat \<times> nat \<times> real \<times> bool"

fun set_edges :: "WeightedGraph \<Rightarrow> set_edge_call list \<Rightarrow> py_error + WeightedGraph" where
  "set_edges g [] = Inr g"
| "set_edges g ((vert1_id, vert2_id, new_edge_val, bi_directional) # rest) =
    (case set_edge g vert1_id vert2_id new_edge_val bi_directional True of
       Inl e \<Rightarrow> Inl e
     | Inr g1 \<Rightarrow> set_edges g1 rest)"

fun written :: "set_edge_call list \<Rightarrow> (nat \<times> nat) set" where
  "written [] = {}"
| "written ((u, v, w, b) # rest) = {(u, v)} \<union> (if b then {(v, u)} else {}) \<union> written rest"

definition scale_admits :: "WeightedGraph \<Rightarrow> nat \<Rightarrow> nat \<Rightarrow> real \<Rightarrow> bool" where
  "scale_admits g u v w \<longleftrightarrow>
     heuristic_scale g * distance_between (vertex_positions g ! u) (vertex_positions g ! v) \<le> w"

definition admissible_on :: "WeightedGraph \<Rightarrow> (nat \<times> nat) set \<Rightarrow> bool" where
  "admissible_on g S \<longleftrightarrow> (\<forall>(u, v) \<in> S. scale_admits g u v (get_edge_val g u v))"

text \<open>Two vertices at distance 1, joined by an edge of weight 1 in both directions.\<close>

definition graph_two :: WeightedGraph where
  "graph_two = \<lparr>adjacency_matrix = [[0, 1], [1, 0]],
                vertex_positions = [Vec2D 0 0, Vec2D 1 0], heuristic_scale = 1\<rparr>"

section \<open>The heap property\<close>

text \<open>
  \<open>heap_inv\<close> is the min-heap property of the list.  \<open>heap_up_pre h i\<close> and
  \<open>heap_down_pre h i\<close> are what holds before \<open>__up_heapify(i)\<close> and
  \<open>__down_heapify(i)\<close>: the property everywhere but between \<open>i\<close> and its parent (resp. its
  children), and between the parent of \<open>i\<close> and the children of \<open>i\<close>.
  \<open>heap_reachable\<close> are the heaps that a sequence of \<open>insert_item\<close>, \<open>extract_root\<close>
  and \<open>decrease_priority_or_insert\<close> calls builds from the empty heap, no call of the
  last raising the priority of the entry it finds.
\<close>

definition heap_inv :: "('a, 'p::linorder) heap \<Rightarrow> bool" where
  "heap_inv h \<longleftrightarrow> (\<forall>i < length h. 0 < i \<longrightarrow> snd (h ! parent_index i) \<le> snd (h ! i))"

definition heap_up_pre :: "('a, 'p::linorder) heap \<Rightarrow> nat \<Rightarrow> bool" where
  "heap_up_pre h i \<longleftrightarrow>
     (\<forall>j < length h. 0 < j \<and> j \<noteq> i \<longrightarrow> snd (h ! parent_index j) \<le> snd (h ! j)) \<and>
     (\<forall>c < length h. 0 < c \<and> parent_index c = i \<and> 0 < i \<longrightarrow> snd (h ! parent_index i) \<le> snd (h ! c))"

definition heap_down_pre :: "('a, 'p::linorder) heap \<Rightarrow> nat \<Rightarrow> bool" where
  "heap_down_pre h i \<longleftrightarrow>
     (\<forall>j < length h. 0 < j \<and> parent_index j \<noteq> i \<longrightarrow> snd (h ! parent_index j) \<le> snd (h ! j)) \<and>
     (\<forall>c < length h. 0 < c \<and> parent_index c = i \<and> 0 < i \<longrightarrow> snd (h ! parent_index i) \<le> snd (h ! c))"

inductive heap_reachable :: "('a, 'p::linorder) heap \<Rightarrow> bool" where
  reach_init: "heap_reachable []"
| reach_insert: "heap_reachable h \<Longrightarrow> heap_reachable (insert_item h item priority)"
| reach_extract: "heap_reachable h \<Longrightarrow> extract_root h = Inr (r, h') \<Longrightarrow> heap_reachable h'"
| reach_decrease:
    "heap_reachable h \<Longrightarrow> (\<forall>index. get_index h item = Some index \<longrightarrow> new_priority \<le> snd (h ! index)) \<Longrightarrow>
     heap_reachable (decrease_priority_or_insert h item new_priority)"

section \<open>Paths and the invariants of the searches\<close>

text \<open>
  \<open>edge_rel g\<close> are the edges of the graph as \<open>get_edge\<close> sees them, between vertices
  of the graph; a vertex \<open>t\<close> is reachable from \<open>s\<close> along at least one edge when
  \<open>(s, t)\<close> is in its transitive closure.  \<open>min_edges g s t\<close> is the least number of
  edges of a path from \<open>s\<close> to \<open>t\<close>.

  \<open>bfs_inv\<close> is the invariant of the loops of \<open>bfs\<close>, with \<open>k\<close> the next id the inner
  loop looks at: every discovered vertex was enqueued and is reachable, every vertex
  dequeued before the current one has all its neighbours discovered, the current one
  those below \<open>k\<close>, and the target is not discovered.  \<open>bfs_measure\<close> decreases with every
  round of the outer loop.  \<open>bfs_found g s t (prev, distances)\<close> describes the pair that
  \<open>bfs\<close> returns: the target has just been discovered from a vertex \<open>cur\<close> that is the
  source or reachable from it.
\<close>

definition edge_rel :: "WeightedGraph \<Rightarrow> (nat \<times> nat) set" where
  "edge_rel g = {(u, v). u < vertices g \<and> v < vertices g \<and> get_edge g u v}"

definition min_edges :: "WeightedGraph \<Rightarrow> nat \<Rightarrow> nat \<Rightarrow> nat" where
  "min_edges g s t = (LEAST k. (s, t) \<in> edge_rel g ^^ k)"

definition bfs_inv :: "WeightedGraph \<Rightarrow> nat \<Rightarrow> nat \<Rightarrow> bfs_state \<Rightarrow> nat \<Rightarrow> bool" where
  "bfs_inv g s t st k \<longleftrightarrow>
    (case st of (prev, dists, q) \<Rightarrow>
      length dists = vertices g \<and> length prev = vertices g \<and>
      back_pointer q \<le> length (queue_data q) \<and>
      (\<forall>v \<in> set (queue_data q). v < vertices g) \<and> s \<in> set (queue_data q) \<and>
      (\<forall>v < vertices g. - 1 \<le> dists ! v) \<and>
      (\<forall>v < vertices g. dists ! v \<noteq> - 1 \<longrightarrow> v \<in> set (queue_data q) \<and> (s, v) \<in> (edge_rel g)\<^sup>+) \<and>
      (\<forall>v \<in> set (queue_data q). v = s \<or> dists ! v \<noteq> - 1) \<and>
      (\<forall>i. Suc i < back_pointer q \<longrightarrow>
           (\<forall>v < vertices g. get_edge g (queue_data q ! i) v \<longrightarrow> dists ! v \<noteq> - 1)) \<and>
      (0 < back_pointer q \<longrightarrow>
           (\<forall>v < k. v < vertices g \<and> get_edge g (queue_data q ! (back_pointer q - 1)) v \<longrightarrow> dists ! v \<noteq> - 1)) \<and>
      (t < vertices g \<longrightarrow> dists ! t = - 1))"

definition bfs_measure :: "WeightedGraph \<Rightarrow> bfs_state \<Rightarrow> nat" where
  "bfs_measure g st =
    (case st of (prev, dists, q) \<Rightarrow>
       2 * card {v. v < vertices g \<and> dists ! v = - 1} + (length (queue_data q) - back_pointer q))"

definition bfs_found :: "WeightedGraph \<Rightarrow> nat \<Rightarrow> nat \<Rightarrow> int list \<times> int list \<Rightarrow> bool" where
  "bfs_found g s t r \<longleftrightarrow>
    (case r of (prev, dists) \<Rightarrow>
      \<exists>cur < vertices g. t < vertices g \<and> prev ! t = int cur \<and> get_edge g cur t \<and>
         (cur = s \<or> (s, cur) \<in> (edge_rel g)\<^sup>+) \<and> dists ! t \<noteq> - 1)"

section \<open>Shortest paths and the invariants of dijkstra and a_star\<close>

text \<open>
  A walk is a non-empty list of vertices joined by edges, its weight the sum of the edge
  values along it.  The heuristic is admissible when no edge is shorter than the scaled
  straight-line distance between its ends.  \<open>good_dist\<close> says that every distance that has
  been set is the weight of a cycle-free path whose vertices all carry smaller distances;
  \<open>closed_at g ds u k\<close> says that the edges of \<open>u\<close> to the vertices below \<open>k\<close> are relaxed.
  The loops of \<open>a_star\<close> keep \<open>inner_inv\<close> and \<open>outer_inv\<close>, and \<open>search_measure\<close> falls
  with every pass of the while loop: a distance only ever drops to the weight of another
  cycle-free path, and there are finitely many of those.
\<close>

fun walk :: "WeightedGraph \<Rightarrow> nat list \<Rightarrow> bool" where
  "walk g [] = False"
| "walk g [v] = (v < vertices g)"
| "walk g (u # v # r) = ((u, v) \<in> edge_rel g \<and> walk g (v # r))"

















section \<open>Vector2D.py: point_in_polygon\<close>

definition perp_dot_prod :: "Vec2D \<Rightarrow> Vec2D \<Rightarrow> real" where
  "perp_dot_prod vec1 vec2 = vx vec1 * vy vec2 - vy vec1 * vx vec2"

fun point_in_polygon_for :: "Vec2D \<Rightarrow> Vec2D list \<Rightarrow> nat list \<Rightarrow> real \<Rightarrow> bool" where
  "point_in_polygon_for point_pos polygon [] prev_sign = True"
| "point_in_polygon_for point_pos polygon (i # rest) prev_sign =
    (let vert1_pos = polygon ! i;
         vert2_pos = polygon ! ((i + 1) mod length polygon);
         edge_vec = vec_sub vert2_pos vert1_pos;
         point_vec = vec_sub point_pos vert1_pos
     in if prev_sign = 0
        then point_in_polygon_for point_pos polygon rest (perp_dot_prod edge_vec point_vec)
        else if prev_sign * perp_dot_prod edge_vec point_vec < 0 then False
        else point_in_polygon_for point_pos polygon rest prev_sign)"

definition point_in_polygon :: "Vec2D \<Rightarrow> Vec2D list \<Rightarrow> bool" where
  "point_in_polygon point_pos polygon =
     point_in_polygon_for point_pos polygon [0..<length polygon] 0"

section \<open>Running code that may raise or loop\<close>

text \<open>
  \<open>bind_err\<close> runs the rest of a block after a step that may raise; \<open>bind_run\<close> does the
  same after a step that may also run forever (\<open>None\<close>).
\<close>

definition bind_err :: "py_error + 'a \<Rightarrow> ('a \<Rightarrow> py_error + 'b) \<Rightarrow> py_error + 'b" where
  "bind_err r f = (case r of Inl e \<Rightarrow> Inl e | Inr x \<Rightarrow> f x)"

definition bind_run ::
  "(py_error + 'a) option \<Rightarrow> ('a \<Rightarrow> (py_error + 'b) option) \<Rightarrow> (py_error + 'b) option" where
  "bind_run r f = (case r of None \<Rightarrow> None | Some (Inl e) \<Rightarrow> Some (Inl e) | Some (Inr x) \<Rightarrow> f x)"

section \<open>NavigationMesh.py: NavMesh.add_link\<close>

text \<open>
  \<open>NavMesh_add_link\<close> is \<open>NavMesh.add_link\<close> and, further down, \<open>Map_add_link\<close> is
  \<open>Map.__add_link\<close>; \<open>add_link\<close> alone is \<open>Floor.add_link\<close>.

  \<open>num_of_links\<close> counts the link vertices, which are the last ones of \<open>nav_graph\<close>, so it
  never exceeds the number of vertices (\<open>wf_nav_mesh\<close> below) and the subtraction is the
  integer one.
\<close>

definition get_nav_graph_link_id :: "NavMesh \<Rightarrow> nat \<Rightarrow> nat" where
  "get_nav_graph_link_id nm link_num = vertices (nav_graph nm) - num_of_links nm + link_num"

text \<open>
  \<open>list.sort\<close> is stable, as \<open>sort_key\<close> is; the key of a region without a position
  raises IndexError.
\<close>

definition sort_region_nums_by_dist_from :: "NavMesh \<Rightarrow> Vec2D \<Rightarrow> py_error + nat list" where
  "sort_region_nums_by_dist_from nm pos =
    (if \<not> length (regions nm) \<le> length (region_positions nm) then Inl IndexError
     else Inr (sort_key (\<lambda>region_num. squared_distance_between pos (region_positions nm ! region_num))
                 [0..<length (regions nm)]))"

text \<open>
  The two loops \<open>for vert_id in ...: self.nav_graph.set_edge(vert_id, self.nav_graph.vertices - 1, ...)\<close>
  of \<open>add_link\<close>.
\<close>

fun add_link_join :: "WeightedGraph \<Rightarrow> nat list \<Rightarrow> py_error + WeightedGraph" where
  "add_link_join g [] = Inr g"
| "add_link_join g (vert_id # rest) =
    (if \<not> vert_id < vertices g then Inl IndexError
     else bind_err
            (set_edge g vert_id (vertices g - 1)
               (distance_between (vertex_positions g ! vert_id) (vertex_positions g ! (vertices g - 1)))
               True False)
            (\<lambda>g1. add_link_join g1 rest))"

text \<open>The loop over the edges of the region that holds the point.\<close>

fun add_link_edges :: "NavMesh \<Rightarrow> nat list \<Rightarrow> nat list \<Rightarrow> WeightedGraph \<Rightarrow> py_error + WeightedGraph" where
  "add_link_edges nm region [] g = Inr g"
| "add_link_edges nm region (region_edge_num # rest) g =
    (let vert1_id = region ! region_edge_num;
         vert2_id = region ! ((region_edge_num + 1) mod length region)
     in if \<not> (vert1_id < vertices (nav_mesh nm) \<and> vert2_id < vertices (nav_mesh nm)) then Inl IndexError
        else if get_edge_val (nav_mesh nm) vert1_id vert2_id = 3 then
          (let dict_key = (if vert1_id > vert2_id then (vert1_id, vert2_id) else (vert2_id, vert1_id))
           in case edge_vert_ids nm dict_key of
                None \<Rightarrow> Inl KeyError
              | Some vert_ids \<Rightarrow>
                  bind_err (add_link_join g vert_ids) (\<lambda>g1. add_link_edges nm region rest g1))
        else add_link_edges nm region rest g)"

text \<open>
  The loop over the sorted regions; it returns from the first region that holds the
  point, and falls through when no region does.
\<close>

fun add_link_regions :: "Vec2D \<Rightarrow> nat list \<Rightarrow> NavMesh \<Rightarrow> py_error + NavMesh" where
  "add_link_regions point [] nm = Inr nm"
| "add_link_regions point (region_num # rest) nm =
    (let region = regions nm ! region_num in
     if \<not> list_all (\<lambda>vert_id. vert_id < vertices (nav_mesh nm)) region then Inl IndexError
     else if point_in_polygon point (map (\<lambda>vert_id. vertex_positions (nav_mesh nm) ! vert_id) region) then
       bind_err
         (case region_indexed_links nm region_num of
            Some vert_ids \<Rightarrow>
              bind_err (add_link_join (nav_graph nm) vert_ids)
                (\<lambda>g1. Inr (nm\<lparr>nav_graph := g1,
                               region_indexed_links :=
                                 (region_indexed_links nm)(region_num \<mapsto> vert_ids @ [vertices g1 - 1])\<rparr>))
          | None \<Rightarrow>
              Inr (nm\<lparr>region_indexed_links :=
                         (region_indexed_links nm)(region_num \<mapsto> [vertices (nav_graph nm) - 1])\<rparr>))
         (\<lambda>nm1. bind_err (add_link_edges nm1 region [0..<length region] (nav_graph nm1))
                   (\<lambda>g2. Inr (nm1\<lparr>nav_graph := g2\<rparr>)))
     else add_link_regions point rest nm)"

definition NavMesh_add_link :: "NavMesh \<Rightarrow> Vec2D \<Rightarrow> py_error + NavMesh" where
  "NavMesh_add_link nm point =
    (let nm1 = nm\<lparr>num_of_links := num_of_links nm + 1,
                   nav_graph := add_vertex (nav_graph nm) point\<rparr>
     in bind_err (sort_region_nums_by_dist_from nm1 point)
          (\<lambda>sorted_regions_nums. add_link_regions point sorted_regions_nums nm1))"

section \<open>Map.py: __add_link, pathfind and reset_nav_meshes\<close>

definition START :: link_id where "START = IntId 1"
definition END :: link_id where "END = IntId 0"

definition BFS :: string where "BFS = ''BFS''"
definition DIJKSTRA :: string where "DIJKSTRA = ''Dijkstra''"
definition A_STAR :: string where "A_STAR = ''A*''"
definition GREEDY :: string where "GREEDY = ''Greedy''"

text \<open>
  The choice of the primary algorithm, as the \<open>if\<close> chains of \<open>__add_link\<close> and
  \<open>pathfind\<close> make it.
\<close>

definition primary_search :: "string \<Rightarrow> WeightedGraph \<Rightarrow> nat \<Rightarrow> nat \<Rightarrow> real search_result option" where
  "primary_search primary_algorithm g vert1_id vert2_id =
    (if primary_algorithm = A_STAR then a_star g vert1_id vert2_id
     else if primary_algorithm = DIJKSTRA then dijkstra g vert1_id vert2_id
     else if primary_algorithm = GREEDY then greedy g vert1_id vert2_id
     else Some (Inl (Exception ''Invalid primary algorithm.'')))"

text \<open>
  \<open>if not get_edge(a, b) or new_weight < get_edge_val(a, b): set_edge(a, b, new_weight,
  bi_directional=False)\<close>, which \<open>__add_link\<close> contains four times.
\<close>

definition offer_edge :: "WeightedGraph \<Rightarrow> nat \<Rightarrow> nat \<Rightarrow> real \<Rightarrow> py_error + WeightedGraph" where
  "offer_edge lg vert1_id vert2_id new_weight =
    (if \<not> (vert1_id < vertices lg \<and> vert2_id < vertices lg) then Inl IndexError
     else if \<not> get_edge lg vert1_id vert2_id \<or> new_weight < get_edge_val lg vert1_id vert2_id
          then set_edge lg vert1_id vert2_id new_weight False False
          else Inr lg)"

text \<open>Case 1: the new vertex is joined to the links that share its id.\<close>

fun add_link_case1 :: "WeightedGraph \<Rightarrow> nat list \<Rightarrow> real \<Rightarrow> py_error + WeightedGraph" where
  "add_link_case1 lg [] link_weight = Inr lg"
| "add_link_case1 lg (prev_link_id # rest) link_weight =
    bind_err (set_edge lg (vertices lg - 1) prev_link_id link_weight True False)
      (\<lambda>lg1. add_link_case1 lg1 rest link_weight)"

text \<open>Case 2, one earlier link of the floor, with the distances searched for.\<close>

definition add_link_precomputed ::
  "string \<Rightarrow> WeightedGraph \<Rightarrow> nat \<Rightarrow> nat \<Rightarrow> nat \<Rightarrow> WeightedGraph \<Rightarrow> (py_error + WeightedGraph) option" where
  "add_link_precomputed primary_algorithm ng link_nav_id prev_link_nav_id prev_vert_id lg =
    bind_run (primary_search primary_algorithm ng link_nav_id prev_link_nav_id) (\<lambda>returned.
    bind_run (primary_search primary_algorithm ng prev_link_nav_id link_nav_id) (\<lambda>returned2.
    bind_run (Some (case returned of
                      None \<Rightarrow> Inr lg
                    | Some (_, distances) \<Rightarrow>
                        if \<not> prev_link_nav_id < length distances then Inl IndexError
                        else offer_edge lg (vertices lg - 1) prev_vert_id (distances ! prev_link_nav_id))) (\<lambda>lg1.
    Some (case returned2 of
            None \<Rightarrow> Inr lg1
          | Some (_, distances) \<Rightarrow>
              if \<not> link_nav_id < length distances then Inl IndexError
              else offer_edge lg1 prev_vert_id (vertices lg1 - 1) (distances ! link_nav_id)))))"

text \<open>Case 2, one earlier link of the floor, with the heuristic as the distance.\<close>

definition add_link_heuristic ::
  "WeightedGraph \<Rightarrow> nat \<Rightarrow> nat \<Rightarrow> nat \<Rightarrow> WeightedGraph \<Rightarrow> (py_error + WeightedGraph) option" where
  "add_link_heuristic ng link_nav_id prev_link_nav_id prev_vert_id lg =
    bind_run (dfs ng link_nav_id) (\<lambda>found.
    bind_run (Some (if \<not> prev_link_nav_id < length found then Inl IndexError
                    else if found ! prev_link_nav_id
                    then offer_edge lg (vertices lg - 1) prev_vert_id (heuristic ng link_nav_id prev_link_nav_id)
                    else Inr lg)) (\<lambda>lg1.
    bind_run (dfs ng prev_link_nav_id) (\<lambda>found2.
    Some (if \<not> link_nav_id < length found2 then Inl IndexError
          else if found2 ! link_nav_id
          then offer_edge lg1 prev_vert_id (vertices lg1 - 1) (heuristic ng link_nav_id prev_link_nav_id)
          else Inr lg1))))"

fun add_link_case2 ::
  "bool \<Rightarrow> string \<Rightarrow> (int \<rightharpoonup> NavMesh) \<Rightarrow> int \<Rightarrow> nat \<Rightarrow> (nat \<times> nat) list \<Rightarrow> WeightedGraph \<Rightarrow>
     (py_error + WeightedGraph) option" where
  "add_link_case2 precompute_link_dist primary_algorithm nms floor_num link_num [] lg = Some (Inr lg)"
| "add_link_case2 precompute_link_dist primary_algorithm nms floor_num link_num (prev_link # rest) lg =
    (case nms floor_num of
       None \<Rightarrow> Some (Inl KeyError)
     | Some nm \<Rightarrow>
        (let link_nav_id = get_nav_graph_link_id nm link_num;
             prev_link_nav_id = get_nav_graph_link_id nm (snd prev_link)
         in bind_run
              (if precompute_link_dist
               then add_link_precomputed primary_algorithm (nav_graph nm) link_nav_id prev_link_nav_id (fst prev_link) lg
               else add_link_heuristic (nav_graph nm) link_nav_id prev_link_nav_id (fst prev_link) lg)
              (\<lambda>lg1. add_link_case2 precompute_link_dist primary_algorithm nms floor_num link_num rest lg1)))"

definition Map_add_link :: "Map \<Rightarrow> int \<Rightarrow> nat \<Rightarrow> bool \<Rightarrow> string \<Rightarrow> real \<Rightarrow> (py_error + Map) option" where
  "Map_add_link m floor_num link_num precompute_link_dist primary_algorithm link_weight =
    (case floors m floor_num of
       None \<Rightarrow> Some (Inl KeyError)
     | Some fl \<Rightarrow>
        if \<not> link_num < length (links fl) then Some (Inl IndexError)
        else
         (let link = links fl ! link_num;
              lg0 = add_vertex (link_graph m) (Vec2D 0 (of_int floor_num))
          in bind_run
               (Some (case id_indexed_nodes m (link_id link) of
                        Some prev_link_ids \<Rightarrow>
                          bind_err (add_link_case1 lg0 prev_link_ids link_weight)
                            (\<lambda>lg1. Inr (lg1, id_indexed_nodes m))
                      | None \<Rightarrow> Inr (lg0, (id_indexed_nodes m)(link_id link \<mapsto> []))))
               (\<lambda>(lg1, ids1).
             bind_run
               (case floor_indexed_nodes m floor_num of
                  Some prev_links \<Rightarrow>
                    bind_run (add_link_case2 precompute_link_dist primary_algorithm (nav_meshes m)
                                floor_num link_num prev_links lg1)
                      (\<lambda>lg2. Some (Inr (lg2, floor_indexed_nodes m)))
                | None \<Rightarrow> Some (Inr (lg1, (floor_indexed_nodes m)(floor_num \<mapsto> []))))
               (\<lambda>(lg2, fls2).
                  Some (Inr (m\<lparr>link_graph := lg2,
                    id_indexed_nodes :=
                      ids1(link_id link \<mapsto> the (ids1 (link_id link)) @ [vertices lg2 - 1]),
                    floor_indexed_nodes :=
                      fls2(floor_num \<mapsto> the (fls2 floor_num) @ [(vertices lg2 - 1, link_num)]),
                    link_graph_id_indexed_nodes :=
                      (link_graph_id_indexed_nodes m)
                        (vertices lg2 - 1 \<mapsto> (link_num, floor_num, link_id link))\<rparr>))))))"

text \<open>
  The search on the link graph.  \<open>bfs\<close> fills \<open>prev\<close> with \<open>-1\<close> and the other searches
  with \<open>0\<close>, so \<open>prev\<close> is a list of integers here, read with Python's indexing.
\<close>

definition link_search :: "string \<Rightarrow> WeightedGraph \<Rightarrow> nat \<Rightarrow> nat \<Rightarrow> (py_error + int list option) option" where
  "link_search link_algorithm g vert1_id vert2_id =
    (if link_algorithm = BFS
     then bind_run (bfs g vert1_id vert2_id) (\<lambda>returned. Some (Inr (map_option fst returned)))
     else if link_algorithm = DIJKSTRA
     then bind_run (dijkstra g vert1_id vert2_id)
            (\<lambda>returned. Some (Inr (map_option (\<lambda>(prev, _). map int prev) returned)))
     else if link_algorithm = A_STAR
     then bind_run (a_star g vert1_id vert2_id)
            (\<lambda>returned. Some (Inr (map_option (\<lambda>(prev, _). map int prev) returned)))
     else if link_algorithm = GREEDY
     then bind_run (greedy g vert1_id vert2_id)
            (\<lambda>returned. Some (Inr (map_option (\<lambda>(prev, _). map int prev) returned)))
     else Some (Inl (Exception ''Invalid link algorithm set.'')))"

text \<open>\<open>while link_path[-1] != self.link_graph.vertices - 1\<close>.\<close>

partial_function (option) link_path_while ::
  "int list \<Rightarrow> int \<Rightarrow> int \<Rightarrow> int list \<Rightarrow> (py_error + int list) option" where
  "link_path_while prev source current_vert link_path =
    (if last link_path \<noteq> source then
       (case py_index (length prev) current_vert of
          None \<Rightarrow> Some (Inl IndexError)
        | Some k \<Rightarrow> link_path_while prev source (prev ! k) (link_path @ [prev ! k]))
     else Some (Inr link_path))"

text \<open>\<open>while floor_path[-1] != vert2_nav_graph_id\<close>.\<close>

partial_function (option) floor_path_while ::
  "nat list \<Rightarrow> nat \<Rightarrow> nat \<Rightarrow> nat list \<Rightarrow> (py_error + nat list) option" where
  "floor_path_while prev vert2_nav_graph_id current_vert floor_path =
    (if last floor_path \<noteq> vert2_nav_graph_id then
       (if \<not> current_vert < length prev then Some (Inl IndexError)
        else floor_path_while prev vert2_nav_graph_id (prev ! current_vert)
               (floor_path @ [prev ! current_vert]))
     else Some (Inr floor_path))"

declare link_path_while.simps [code] floor_path_while.simps [code]

text \<open>A dictionary keyed by vertex ids, read at an integer.\<close>

definition lookup_vert :: "(nat \<rightharpoonup> 'a) \<Rightarrow> int \<Rightarrow> 'a option" where
  "lookup_vert d i = (if i < 0 then None else d (nat i))"

type_synonym final_paths = "nat \<times> int \<rightharpoonup> nat list"

text \<open>
  \<open>for edge_num in range(len(link_path)-1)\<close>.  Unpacking the \<open>None\<close> of a failed search
  raises TypeError.
\<close>

fun pathfind_for ::
  "Map \<Rightarrow> string \<Rightarrow> real \<Rightarrow> int list \<Rightarrow> nat list \<Rightarrow> final_paths \<Rightarrow> (py_error + final_paths) option" where
  "pathfind_for m primary_algorithm link_weight link_path [] final_paths = Some (Inr final_paths)"
| "pathfind_for m primary_algorithm link_weight link_path (edge_num # rest) final_paths =
    (let vert1_id = link_path ! edge_num;
         vert2_id = link_path ! (edge_num + 1)
     in case (lookup_vert (link_graph_id_indexed_nodes m) vert1_id,
              lookup_vert (link_graph_id_indexed_nodes m) vert2_id) of
          (Some (link_num1, floor_num1, link_id1), Some (link_num2, floor_num2, link_id2)) \<Rightarrow>
            if floor_num1 = floor_num2 \<and> link_id1 = link_id2 \<and>
               \<not> (nat vert1_id < vertices (link_graph m) \<and> nat vert2_id < vertices (link_graph m))
            then Some (Inl IndexError)
            else if floor_num1 = floor_num2 \<and>
                 \<not> (link_id1 = link_id2 \<and>
                    get_edge_val (link_graph m) (nat vert1_id) (nat vert2_id) = link_weight)
            then
              (case nav_meshes m floor_num1 of
                 None \<Rightarrow> Some (Inl KeyError)
               | Some nm \<Rightarrow>
                  (let vert1_nav_graph_id = get_nav_graph_link_id nm link_num1;
                       vert2_nav_graph_id = get_nav_graph_link_id nm link_num2
                   in bind_run (primary_search primary_algorithm (nav_graph nm)
                                  vert2_nav_graph_id vert1_nav_graph_id) (\<lambda>returned.
                      case returned of
                        None \<Rightarrow> Some (Inl TypeError)
                      | Some (prev, _) \<Rightarrow>
                          bind_run (floor_path_while prev vert2_nav_graph_id vert1_nav_graph_id
                                      [vert1_nav_graph_id]) (\<lambda>floor_path.
                          pathfind_for m primary_algorithm link_weight link_path rest
                            (final_paths((edge_num, floor_num1) \<mapsto> floor_path))))))
            else pathfind_for m primary_algorithm link_weight link_path rest final_paths
        | _ \<Rightarrow> Some (Inl KeyError))"

text \<open>
  \<open>pathfind\<close> in three parts.  The first (up to the two calls of \<open>NavMesh.add_link\<close>) adds
  the two links to their floors and to the navigation meshes, and keeps the copies;
  it returns the new map, the numbers of the two links and the two copies.
\<close>

definition pathfind_begin ::
  "Map \<Rightarrow> Vec2D \<Rightarrow> int \<Rightarrow> Vec2D \<Rightarrow> int \<Rightarrow> py_error + (Map \<times> nat \<times> nat \<times> NavMesh \<times> NavMesh)" where
  "pathfind_begin m start_pos start_floor_num end_pos end_floor_num =
    (case floors m start_floor_num of
       None \<Rightarrow> Inl KeyError
     | Some start_floor \<Rightarrow>
        (let floors1 = (floors m)(start_floor_num \<mapsto> add_link start_floor START start_pos);
             start_link_num = length (links (add_link start_floor START start_pos)) - 1
         in case floors1 end_floor_num of
              None \<Rightarrow> Inl KeyError
            | Some end_floor \<Rightarrow>
               (let floors2 = floors1(end_floor_num \<mapsto> add_link end_floor END end_pos);
                    end_link_num = length (links (add_link end_floor END end_pos)) - 1
                in case nav_meshes m start_floor_num of
                     None \<Rightarrow> Inl KeyError
                   | Some old_nav_mesh_copy1 \<Rightarrow>
                      (case (if end_floor_num = start_floor_num then Some old_nav_mesh_copy1
                             else nav_meshes m end_floor_num) of
                         None \<Rightarrow> Inl KeyError
                       | Some old_nav_mesh_copy2 \<Rightarrow>
                          bind_err (NavMesh_add_link old_nav_mesh_copy1 start_pos) (\<lambda>nm1.
                            let nav_meshes1 = (nav_meshes m)(start_floor_num \<mapsto> nm1)
                            in case nav_meshes1 end_floor_num of
                                 None \<Rightarrow> Inl KeyError
                               | Some nm_end \<Rightarrow>
                                  bind_err (NavMesh_add_link nm_end end_pos) (\<lambda>nm2.
                                    Inr (m\<lparr>floors := floors2,
                                            nav_meshes := nav_meshes1(end_floor_num \<mapsto> nm2)\<rparr>,
                                         start_link_num, end_link_num,
                                         old_nav_mesh_copy1, old_nav_mesh_copy2)))))))"

text \<open>
  The second part: the search on the link graph and the paths on the floors.  It reads
  the map and changes nothing in it.
\<close>

definition pathfind_paths ::
  "Map \<Rightarrow> string \<Rightarrow> string \<Rightarrow> real \<Rightarrow> (py_error + final_paths option) option" where
  "pathfind_paths m primary_algorithm link_algorithm link_weight =
    bind_run (link_search link_algorithm (link_graph m)
                (vertices (link_graph m) - 1) (vertices (link_graph m) - 2)) (\<lambda>returned.
      case returned of
        None \<Rightarrow> Some (Inr None)
      | Some prev \<Rightarrow>
          bind_run (link_path_while prev (int (vertices (link_graph m)) - 1)
                      (int (vertices (link_graph m)) - 2) [int (vertices (link_graph m)) - 2]) (\<lambda>link_path.
          bind_run (pathfind_for m primary_algorithm link_weight link_path
                      [0..<length link_path - 1] Map.empty) (\<lambda>final_paths.
          Some (Inr (Some final_paths)))))"

text \<open>
  The third part, from \<open># Finally, return everything back to how it was\<close>.
\<close>

definition pop_link :: "(int \<rightharpoonup> Floor) \<Rightarrow> int \<Rightarrow> py_error + (int \<rightharpoonup> Floor)" where
  "pop_link fs floor_num =
    (case fs floor_num of
       None \<Rightarrow> Inl KeyError
     | Some fl \<Rightarrow> if links fl = [] then Inl IndexError
                  else Inr (fs(floor_num \<mapsto> fl\<lparr>links := butlast (links fl)\<rparr>)))"

definition pathfind_end ::
  "Map \<Rightarrow> int \<Rightarrow> int \<Rightarrow> (int \<rightharpoonup> (nat \<times> nat) list) \<Rightarrow> (nat \<rightharpoonup> nat \<times> int \<times> link_id) \<Rightarrow>
     NavMesh \<Rightarrow> NavMesh \<Rightarrow> py_error + Map" where
  "pathfind_end m start_floor_num end_floor_num old_floor_indexed_nodes old_link_graph_id_indexed_nodes
       old_nav_mesh_copy1 old_nav_mesh_copy2 =
    bind_err (pop_link (floors m) start_floor_num) (\<lambda>floors1.
    bind_err (pop_link floors1 end_floor_num) (\<lambda>floors2.
      let lg1 = delete_vertex (link_graph m) (vertices (link_graph m) - 1);
          lg2 = delete_vertex lg1 (vertices lg1 - 1)
      in if id_indexed_nodes m START = None then Inl KeyError
         else if ((id_indexed_nodes m)(START := None)) END = None then Inl KeyError
         else Inr (m\<lparr>floors := floors2,
                     link_graph := lg2,
                     id_indexed_nodes := (id_indexed_nodes m)(START := None, END := None),
                     floor_indexed_nodes := old_floor_indexed_nodes,
                     link_graph_id_indexed_nodes := old_link_graph_id_indexed_nodes,
                     reset_data := Some (start_floor_num, end_floor_num,
                                         old_nav_mesh_copy1, old_nav_mesh_copy2)\<rparr>)))"

definition pathfind ::
  "Map \<Rightarrow> Vec2D \<Rightarrow> int \<Rightarrow> Vec2D \<Rightarrow> int \<Rightarrow> string \<Rightarrow> string \<Rightarrow> bool \<Rightarrow> real \<Rightarrow>
     (py_error + (final_paths option \<times> Map)) option" where
  "pathfind m start_pos start_floor_num end_pos end_floor_num primary_algorithm link_algorithm
       precompute_link_dist link_weight =
    bind_run (Some (pathfind_begin m start_pos start_floor_num end_pos end_floor_num))
      (\<lambda>(m1, start_link_num, end_link_num, old_nav_mesh_copy1, old_nav_mesh_copy2).
    bind_run (Map_add_link m1 start_floor_num start_link_num precompute_link_dist primary_algorithm 0)
      (\<lambda>m2.
    bind_run (Map_add_link m2 end_floor_num end_link_num precompute_link_dist primary_algorithm 0)
      (\<lambda>m3.
    bind_run (pathfind_paths m3 primary_algorithm link_algorithm link_weight)
      (\<lambda>final_paths.
    bind_run (Some (pathfind_end m3 start_floor_num end_floor_num
                      (floor_indexed_nodes m) (link_graph_id_indexed_nodes m)
                      old_nav_mesh_copy1 old_nav_mesh_copy2))
      (\<lambda>m4. Some (Inr (final_paths, m4)))))))"

definition reset_nav_meshes :: "Map \<Rightarrow> Map" where
  "reset_nav_meshes m =
    (case reset_data m of
       None \<Rightarrow> m
     | Some (floor1, floor2, nav_mesh1, nav_mesh2) \<Rightarrow>
         m\<lparr>nav_meshes := (nav_meshes m)(floor1 \<mapsto> nav_mesh1, floor2 \<mapsto> nav_mesh2),
           reset_data := None\<rparr>)"

text \<open>
  What the classes keep true of a map: the link graph, and the two graphs of every
  navigation mesh, have a square matrix as large as their list of positions, and the
  links of a navigation mesh are vertices of its \<open>nav_graph\<close>.  These are the maps on which
  the accessors above are used inside their range.
\<close>

definition wf_nav_mesh :: "NavMesh \<Rightarrow> bool" where
  "wf_nav_mesh nm \<longleftrightarrow>
     wf_graph (nav_mesh nm) \<and> wf_graph (nav_graph nm) \<and> num_of_links nm \<le> vertices (nav_graph nm)"

definition wf_map :: "Map \<Rightarrow> bool" where
  "wf_map m \<longleftrightarrow> wf_graph (link_graph m) \<and> (\<forall>nm \<in> ran (nav_meshes m). wf_nav_mesh nm)"

text \<open>
  \<open>same_but_last g g'\<close>: the two graphs have the same vertices and differ at most in the
  row and the column of the last one.
\<close>

definition same_but_last :: "WeightedGraph \<Rightarrow> WeightedGraph \<Rightarrow> bool" where
  "same_but_last g g' \<longleftrightarrow>
     vertices g' = vertices g \<and>
     delete_vertex g' (vertices g - 1) = delete_vertex g (vertices g - 1) \<and>
     (wf_graph g \<longrightarrow> wf_graph g')"

section \<open>An example map\<close>

text \<open>
  One floor without walls, whose navigation mesh has a single square region and no link
  yet.
\<close>

definition nav_mesh_square :: NavMesh where
  "nav_mesh_square =
     \<lparr>num_of_links = 0,
      nav_mesh = \<lparr>adjacency_matrix = SquareMat 4,
                  vertex_positions = [Vec2D (- 1) (- 1), Vec2D 2 (- 1), Vec2D 2 2, Vec2D (- 1) 2],
                  heuristic_scale = 1\<rparr>,
      regions = [[0, 1, 2, 3]],
      region_positions = [Vec2D (1/2) (1/2)],
      nav_graph = WeightedGraph_init,
      edge_vert_ids = Map.empty,
      region_indexed_links = Map.empty,
      old_nav_graph = None\<rparr>"

definition map_square :: Map where
  "map_square =
     \<lparr>id_indexed_nodes = Map.empty,
      floor_indexed_nodes = Map.empty,
      link_graph_id_indexed_nodes = Map.empty,
      reset_data = None,
      floors = [0 \<mapsto> Floor_init True],
      nav_meshes = [0 \<mapsto> nav_mesh_square],
      link_graph = WeightedGraph_init\<rparr>"

section \<open>Verification\<close>

subsection \<open>Graphs stay well formed\<close>

lemma vertices_add_vertex [simp]: "vertices (add_vertex g p) = Suc (vertices g)"
  by (simp add: vertices_def add_vertex_def)

lemma wf_graph_add_vertex: "wf_graph g \<Longrightarrow> wf_graph (add_vertex g p)"
  by (auto simp: wf_graph_def add_vertex_def expand_def vertices_def list_all_iff)

lemma vertices_set_edge_default [simp]: "vertices (set_edge_default g a b v) = vertices g"
  by (simp add: vertices_def set_edge_default_def)

lemma vertex_positions_set_edge_default [simp]:
  "vertex_positions (set_edge_default g a b v) = vertex_positions g"
  by (simp add: set_edge_default_def)

lemma length_set_item [simp]: "length (set_item m x y v mir) = length m"
  by (simp add: set_item_def Let_def)

lemma rows_update:
  "list_all (\<lambda>row. length row = n) m \<Longrightarrow> list_all (\<lambda>row. length row = n) (m[x := (m ! x)[y := v]])"
  by (cases "x < length m") (auto simp: list_all_length nth_list_update)

lemma set_item_rows:
  "list_all (\<lambda>row. length row = n) m \<Longrightarrow> list_all (\<lambda>row. length row = n) (set_item m x y v mir)"
  by (simp add: set_item_def Let_def rows_update)

lemma wf_graph_set_edge_default: "wf_graph g \<Longrightarrow> wf_graph (set_edge_default g a b v)"
  by (simp add: wf_graph_def set_edge_default_def set_item_rows vertices_def)

lemma get_item_set_item_mirrored:
  assumes "length m = n" "list_all (\<lambda>row. length row = n) m" "x < n" "y < n"
  shows "get_item (set_item m x y v True) x y = v"
proof -
  have lx: "length (m ! x) = n" and ly: "length (m ! y) = n"
    using assms by (auto simp: list_all_length)
  show ?thesis
    using assms lx ly by (cases "x = y") (simp_all add: get_item_def set_item_def Let_def)
qed

lemma get_edge_val_set_edge_default:
  "wf_graph g \<Longrightarrow> a < vertices g \<Longrightarrow> b < vertices g \<Longrightarrow>
     get_edge_val (set_edge_default g a b v) a b = v"
  by (simp add: get_edge_val_def set_edge_default_def wf_graph_def get_item_set_item_mirrored)

subsection \<open>Floor.add_wall\<close>

lemma split_wall_props:
  "wf_graph (walls f) \<Longrightarrow> wf_graph (walls (split_wall f p a b)) \<and>
     vertices (walls (split_wall f p a b)) = Suc (vertices (walls f))"
  by (simp add: split_wall_def Let_def wf_graph_set_edge_default wf_graph_add_vertex)

lemma place_vertex_props:
  assumes "wf_graph (walls f)" "place_vertex f p = (i, f1)"
  shows "wf_graph (walls f1) \<and> i < vertices (walls f1) \<and> vertices (walls f) \<le> vertices (walls f1)"
  using assms
  by (auto simp: place_vertex_def Let_def split_wall_props wf_graph_add_vertex find_Some_iff
           split: option.splits prod.splits)

lemma sqdist_le_radiusD:
  assumes "squared_distance_between (Vec2D a b) (Vec2D c d) \<le> r\<^sup>2" "0 \<le> r"
  shows "\<bar>a - c\<bar> \<le> r \<and> \<bar>b - d\<bar> \<le> r"
proof -
  have s: "(a - c)\<^sup>2 + (b - d)\<^sup>2 \<le> r\<^sup>2"
    using assms(1) by (simp add: squared_distance_between_def squared_magnitude_def vec_sub_def)
  have "(a - c)\<^sup>2 \<le> r\<^sup>2" using s zero_le_power2[of "b - d"] by linarith
  then have 1: "\<bar>a - c\<bar> \<le> r" using assms(2) by (simp add: power2_le_iff_abs_le)
  have "(b - d)\<^sup>2 \<le> r\<^sup>2" using s zero_le_power2[of "a - c"] by linarith
  then have 2: "\<bar>b - d\<bar> \<le> r" using assms(2) by (simp add: power2_le_iff_abs_le)
  show ?thesis using 1 2 by simp
qed

lemma lerp_Vec2D:
  "lerp (Vec2D a b) (Vec2D c d) t = Vec2D (a * (1 - t) + c * t) (b * (1 - t) + d * t)"
  by (simp add: lerp_def vec_add_def scalar_multiply_def)

text \<open>
  The candidate wall from \<open>(1/4, 3/8)\<close> to \<open>(3/4, 7/8)\<close> on \<open>floor_short_wall\<close>: it
  stays farther than the node radius from every vertex of the floor, and it has no point
  in common with any of the five walls (it passes above the interior wall, at height
  \<open>5/8\<close> over \<open>x = 1/2\<close>).
\<close>

lemma candidate_not_near_vertex:
  "\<not> passes_within (Vec2D (1/4) (3/8)) (Vec2D (3/4) (7/8)) NODE_RADIUS (Vec2D 0 0)"
  "\<not> passes_within (Vec2D (1/4) (3/8)) (Vec2D (3/4) (7/8)) NODE_RADIUS (Vec2D (7/4) 0)"
  "\<not> passes_within (Vec2D (1/4) (3/8)) (Vec2D (3/4) (7/8)) NODE_RADIUS (Vec2D (7/4) 1)"
  "\<not> passes_within (Vec2D (1/4) (3/8)) (Vec2D (3/4) (7/8)) NODE_RADIUS (Vec2D 0 1)"
  "\<not> passes_within (Vec2D (1/4) (3/8)) (Vec2D (3/4) (7/8)) NODE_RADIUS (Vec2D (1/2) (1/4))"
  "\<not> passes_within (Vec2D (1/4) (3/8)) (Vec2D (3/4) (7/8)) NODE_RADIUS (Vec2D (1/2) (1/2))"
  unfolding passes_within_def on_segment_def lerp_Vec2D NODE_RADIUS_def
  by (auto dest!: sqdist_le_radiusD) argo+

lemma candidate_crosses_no_wall:
  "\<not> segments_cross (Vec2D (7/4) 0) (Vec2D 0 0) (Vec2D (1/4) (3/8)) (Vec2D (3/4) (7/8))"
  "\<not> segments_cross (Vec2D (7/4) 1) (Vec2D (7/4) 0) (Vec2D (1/4) (3/8)) (Vec2D (3/4) (7/8))"
  "\<not> segments_cross (Vec2D 0 1) (Vec2D 0 0) (Vec2D (1/4) (3/8)) (Vec2D (3/4) (7/8))"
  "\<not> segments_cross (Vec2D 0 1) (Vec2D (7/4) 1) (Vec2D (1/4) (3/8)) (Vec2D (3/4) (7/8))"
  "\<not> segments_cross (Vec2D (1/2) (1/2)) (Vec2D (1/2) (1/4)) (Vec2D (1/4) (3/8)) (Vec2D (3/4) (7/8))"
  unfolding segments_cross_def on_segment_def lerp_Vec2D
  by auto argo+

lemma vertices_floor_short_wall: "vertices (walls floor_short_wall) = 6"
  by (simp add: floor_short_wall_def vertices_def)

lemma lower_pairs_6:
  "lower_pairs 6 = [(1,0),(2,0),(2,1),(3,0),(3,1),(3,2),(4,0),(4,1),(4,2),(4,3),
                    (5,0),(5,1),(5,2),(5,3),(5,4)]"
  by code_simp

lemma floor_short_wall_reached:
  "add_wall (Floor_init False) (Vec2D (1/2) (1/4)) (Vec2D (1/2) (1/2)) = Inr (True, floor_short_wall)"
  by code_simp

lemma candidate_placed:
  "placed_endpoints floor_short_wall (Vec2D (1/4) (3/8)) (Vec2D (3/4) (7/8)) =
     (6, 7, floor_short_wall
              \<lparr>walls := add_vertex (add_vertex (walls floor_short_wall) (Vec2D (1/4) (3/8)))
                          (Vec2D (3/4) (7/8))\<rparr>)"
  by code_simp

lemma candidate_rejected:
  "add_wall floor_short_wall (Vec2D (1/4) (3/8)) (Vec2D (3/4) (7/8)) = Inr (False, floor_short_wall)"
  by code_simp

lemma candidate_long_enough:
  "\<not> squared_distance_between (Vec2D (1/4) (3/8)) (Vec2D (3/4) (7/8)) < THRESHOLD_DIST"
  by code_simp

lemma candidate_clear_of_vertices:
  "\<not> list_ex (passes_within (Vec2D (1/4) (3/8)) (Vec2D (3/4) (7/8)) NODE_RADIUS)
       (vertex_positions (walls floor_short_wall))"
  by (simp add: floor_short_wall_def candidate_not_near_vertex)

lemma candidate_clear_of_walls:
  "\<not> list_ex (\<lambda>(vert1_id, vert2_id).
          get_edge (walls floor_short_wall) vert1_id vert2_id \<and>
          segments_cross (vertex_positions (walls floor_short_wall) ! vert1_id)
            (vertex_positions (walls floor_short_wall) ! vert2_id)
            (Vec2D (1/4) (3/8)) (Vec2D (3/4) (7/8)))
       (lower_pairs (vertices (walls floor_short_wall)))"
  unfolding vertices_floor_short_wall lower_pairs_6
  by (simp add: floor_short_wall_def get_edge_def get_item_def candidate_crosses_no_wall)

text \<open>
  C4 (Floor.add_wall rejects exactly the walls that are too short, pass within
  NODE_RADIUS of a third vertex or cross a wall, and accepts every other wall).  The
  code rejects more: on the default floor with the interior wall from \<open>(1/2, 1/4)\<close> to
  \<open>(1/2, 1/2)\<close> (itself made by \<open>add_wall\<close>), the wall from \<open>(1/4, 3/8)\<close> to
  \<open>(3/4, 7/8)\<close> is long enough, both its endpoints are placed as new vertices, it stays
  farther than NODE_RADIUS from all six vertices of the floor and has no point in common
  with any wall, and \<open>add_wall\<close> returns False.  \<open>Vec2D.intersect\<close> answers True for a
  vertical segment as soon as the two bounding boxes overlap.
\<close>

theorem add_wall_rejects_clear_wall:
  "add_wall (Floor_init False) (Vec2D (1/2) (1/4)) (Vec2D (1/2) (1/2)) = Inr (True, floor_short_wall) \<and>
   add_wall floor_short_wall (Vec2D (1/4) (3/8)) (Vec2D (3/4) (7/8)) = Inr (False, floor_short_wall) \<and>
   \<not> squared_distance_between (Vec2D (1/4) (3/8)) (Vec2D (3/4) (7/8)) < THRESHOLD_DIST \<and>
   placed_endpoints floor_short_wall (Vec2D (1/4) (3/8)) (Vec2D (3/4) (7/8)) =
     (6, 7, floor_short_wall
              \<lparr>walls := add_vertex (add_vertex (walls floor_short_wall) (Vec2D (1/4) (3/8)))
                          (Vec2D (3/4) (7/8))\<rparr>) \<and>
   \<not> list_ex (passes_within (Vec2D (1/4) (3/8)) (Vec2D (3/4) (7/8)) NODE_RADIUS)
       (vertex_positions (walls floor_short_wall)) \<and>
   \<not> list_ex (\<lambda>(vert1_id, vert2_id).
          get_edge (walls floor_short_wall) vert1_id vert2_id \<and>
          segments_cross (vertex_positions (walls floor_short_wall) ! vert1_id)
            (vertex_positions (walls floor_short_wall) ! vert2_id)
            (Vec2D (1/4) (3/8)) (Vec2D (3/4) (7/8)))
       (lower_pairs (vertices (walls floor_short_wall))) \<and>
   fst (intersect (Vec2D (1/2) (1/2)) (Vec2D (1/2) (1/4)) (Vec2D (1/4) (3/8)) (Vec2D (3/4) (7/8)))"
proof -
  have "fst (intersect (Vec2D (1/2) (1/2)) (Vec2D (1/2) (1/4)) (Vec2D (1/4) (3/8)) (Vec2D (3/4) (7/8)))"
    by code_simp
  then show ?thesis
    using floor_short_wall_reached candidate_rejected candidate_long_enough candidate_placed
      candidate_clear_of_vertices candidate_clear_of_walls
    by blast
qed

text \<open>
  C5 (a rejected add_wall leaves the wall graph as it was).  The code does not undo a
  wall it split while placing an endpoint: on \<open>floor_short_wall\<close> the wall from
  \<open>(1/4, 0)\<close> to \<open>(3/4, 3/4)\<close> crosses the interior wall and is rejected, the new vertex
  at \<open>(3/4, 3/4)\<close> is removed again, but the bottom wall stays split at \<open>(1/4, 0)\<close>.
\<close>

theorem add_wall_rejected_keeps_split:
  "add_wall (Floor_init False) (Vec2D (1/2) (1/4)) (Vec2D (1/2) (1/2)) = Inr (True, floor_short_wall) \<and>
   add_wall floor_short_wall (Vec2D (1/4) 0) (Vec2D (3/4) (3/4)) = Inr (False, floor_short_wall_split) \<and>
   walls floor_short_wall_split \<noteq> walls floor_short_wall \<and>
   vertices (walls floor_short_wall) = 6 \<and> vertices (walls floor_short_wall_split) = 7 \<and>
   get_edge_val (walls floor_short_wall) 1 0 = 2 \<and> get_edge_val (walls floor_short_wall_split) 1 0 = 0"
proof -
  have 1: "add_wall (Floor_init False) (Vec2D (1/2) (1/4)) (Vec2D (1/2) (1/2)) = Inr (True, floor_short_wall)"
    by code_simp
  have 2: "add_wall floor_short_wall (Vec2D (1/4) 0) (Vec2D (3/4) (3/4)) = Inr (False, floor_short_wall_split)"
    by code_simp
  have 3: "walls floor_short_wall_split \<noteq> walls floor_short_wall"
    by (simp add: floor_short_wall_split_def floor_short_wall_def)
  have 4: "vertices (walls floor_short_wall) = 6 \<and> vertices (walls floor_short_wall_split) = 7 \<and>
    get_edge_val (walls floor_short_wall) 1 0 = 2 \<and> get_edge_val (walls floor_short_wall_split) 1 0 = 0"
    by code_simp
  show ?thesis using 1 2 3 4 by blast
qed

text \<open>
  C9, as the claim states it (code 2 if both placed endpoints lie on the outer
  rectangle), fails: the wall from \<open>(1/2, 0)\<close> on the bottom side to \<open>(1/2, 1)\<close> on the
  top side of the default floor is accepted, both its endpoints (vertices 4 and 5) lie
  on the outer rectangle, and its edge code is 1.
\<close>

theorem add_wall_edge_code_counterexample:
  "add_wall (Floor_init False) (Vec2D (1/2) 0) (Vec2D (1/2) 1) = Inr (True, floor_cross_wall) \<and>
   fst (placed_endpoints (Floor_init False) (Vec2D (1/2) 0) (Vec2D (1/2) 1)) = 4 \<and>
   fst (snd (placed_endpoints (Floor_init False) (Vec2D (1/2) 0) (Vec2D (1/2) 1))) = 5 \<and>
   on_outer_boundary (vertex_positions (walls floor_cross_wall) ! 4) \<and>
   on_outer_boundary (vertex_positions (walls floor_cross_wall) ! 5) \<and>
   get_edge_val (walls floor_cross_wall) 4 5 = 1"
  by code_simp

text \<open>
  C9, amended: after a successful add_wall the edge between the two placed endpoints
  has code 2 if the endpoints lie on the line of one and the same side of the floor
  (both have x = 0, or both x = FLOOR_RATIO.x, or both y = 0, or both
  y = FLOOR_RATIO.y), and code 1 otherwise.
\<close>

theorem add_wall_edge_code:
  assumes wf: "wf_graph (walls f)"
    and pl: "placed_endpoints f p q = (s, e, f2)"
    and ok: "add_wall f p q = Inr (True, f')"
  shows "get_edge_val (walls f') s e =
           (if on_floor_edge (vertex_positions (walls f') ! s) (vertex_positions (walls f') ! e)
            then 2 else 1)"
proof -
  obtain f1 where p1: "place_vertex f p = (s, f1)" and p2: "place_vertex f1 q = (e, f2)"
    using pl by (auto simp: placed_endpoints_def split: prod.splits)
  from place_vertex_props[OF wf p1] have wf1: "wf_graph (walls f1)" and s1: "s < vertices (walls f1)"
    by simp_all
  from place_vertex_props[OF wf1 p2] have wf2: "wf_graph (walls f2)" and e2: "e < vertices (walls f2)"
    and le: "vertices (walls f1) \<le> vertices (walls f2)" by simp_all
  have s2: "s < vertices (walls f2)" using s1 le by simp
  show ?thesis
    using ok p1 p2 wf2 s2 e2
    by (auto simp: add_wall_def get_edge_val_set_edge_default split: if_splits sum.splits prod.splits)
qed

theorem add_wall_edge_code_witness:
  "wf_graph (walls (Floor_init False)) \<and>
   placed_endpoints (Floor_init False) (Vec2D (1/2) 0) (Vec2D (1/2) 1) =
     (4, 5, floor_cross_wall\<lparr>walls := set_edge_default (walls floor_cross_wall) 4 5 0\<rparr>) \<and>
   add_wall (Floor_init False) (Vec2D (1/2) 0) (Vec2D (1/2) 1) = Inr (True, floor_cross_wall) \<and>
   get_edge_val (walls floor_cross_wall) 4 5 =
     (if on_floor_edge (vertex_positions (walls floor_cross_wall) ! 4)
           (vertex_positions (walls floor_cross_wall) ! 5) then 2 else 1)"
proof -
  have h1: "wf_graph (walls (Floor_init False))" by code_simp
  have h2: "placed_endpoints (Floor_init False) (Vec2D (1/2) 0) (Vec2D (1/2) 1) =
     (4, 5, floor_cross_wall\<lparr>walls := set_edge_default (walls floor_cross_wall) 4 5 0\<rparr>)"
    by code_simp
  have h3: "add_wall (Floor_init False) (Vec2D (1/2) 0) (Vec2D (1/2) 1) = Inr (True, floor_cross_wall)"
    by code_simp
  show ?thesis using add_wall_edge_code[OF h1 h2 h3] h1 h2 h3 by blast
qed

subsection \<open>Map.__init__\<close>

text \<open>
  C6 (every malformed record makes the load raise, a malformed \<open>W\<close> record in
  particular).  The \<open>W\<close> branch of the loader has no \<open>else\<close>: a \<open>W\<close> record that fails
  its test is skipped.  The file of the two lines \<open>MAP FILE\<close> and \<open>W\<close> (a wall record with
  no field at all, before any floor) loads without an error, into a map with no floor,
  whatever \<open>int\<close> and \<open>float\<close> accept.
\<close>

theorem malformed_wall_record_is_skipped:
  "Map_init py_int py_float (Some [''MAP FILE'', ''W'']) =
     Inr \<lparr>id_indexed_nodes = Map.empty, floor_indexed_nodes = Map.empty,
          link_graph_id_indexed_nodes = Map.empty, reset_data = None,
          floors = Map.empty, nav_meshes = Map.empty, link_graph = WeightedGraph_init\<rparr>"
  by (simp add: Map_init_def load_record_def)

text \<open>
  The same for a wall record whose vertex indices are not below the vertex count of the
  current floor: with \<open>int\<close> and \<open>float\<close> reading the four tokens used here as Python
  does, the file \<open>MAP FILE / F 0 / V 0 0 / W 1 5 7\<close> loads, and the floor has its vertex
  and no wall.
\<close>

lemma out_of_range_wall_record_is_skipped:
  assumes "py_int ''0'' = Some 0" "py_int ''5'' = Some 5" "py_float ''0'' = Some 0"
    "py_float ''1'' = Some 1" "py_float ''7'' = Some 7"
  shows "\<exists>m. Map_init py_int py_float (Some [''MAP FILE'', ''F 0'', ''V 0 0'', ''W 1 5 7'']) = Inr m \<and>
           floors m 0 = Some \<lparr>walls = add_vertex WeightedGraph_init (Vec2D 0 0), links = []\<rparr>"
  using assms
  by (simp add: Map_init_def load_record_def is_int_def is_float_def Floor_init_def vertices_def
        add_vertex_def WeightedGraph_init_def)

subsection \<open>WeightedGraph.set_edge and the heuristic scale\<close>

lemma distance_between_sym: "distance_between a b = distance_between b a"
  by (simp add: distance_between_def magnitude_def squared_magnitude_def vec_sub_def power2_commute)

lemma distance_between_nonneg: "0 \<le> distance_between a b"
  by (simp add: distance_between_def magnitude_def squared_magnitude_def)

lemma get_item_set_item:
  assumes "length m = n" "list_all (\<lambda>row. length row = n) m" "x < n" "y < n"
  shows "get_item (set_item m x y v mir) i j =
           (if (i = x \<and> j = y) \<or> (mir \<and> i = y \<and> j = x) then v else get_item m i j)"
proof -
  have lx: "length (m ! x) = n" and ly: "length (m ! y) = n"
    using assms by (auto simp: list_all_length)
  show ?thesis
    using assms lx ly
    by (auto simp: get_item_def set_item_def Let_def nth_list_update)
qed

lemma set_edge_update_step:
  assumes wf: "wf_graph g" and st: "set_edge g u v w b True = Inr g1"
  shows "wf_graph g1" "vertex_positions g1 = vertex_positions g"
    "heuristic_scale g1 \<le> heuristic_scale g" "scale_admits g1 u v w"
    "u < vertices g" "v < vertices g"
    "adjacency_matrix g1 = set_item (adjacency_matrix g) u v w b"
  using assms distance_between_nonneg[of "vertex_positions g ! u" "vertex_positions g ! v"]
  by (auto simp: set_edge_def Let_def wf_graph_def vertices_def set_item_rows scale_admits_def
        field_simps split: if_splits)


lemma scale_admits_mono:
  assumes "scale_admits g u v w" "heuristic_scale g1 \<le> heuristic_scale g"
    "vertex_positions g1 = vertex_positions g"
  shows "scale_admits g1 u v w"
proof -
  have "heuristic_scale g1 * distance_between (vertex_positions g ! u) (vertex_positions g ! v)
        \<le> heuristic_scale g * distance_between (vertex_positions g ! u) (vertex_positions g ! v)"
    using assms(2) distance_between_nonneg by (simp add: mult_right_mono)
  then show ?thesis using assms(1,3) by (simp add: scale_admits_def)
qed

lemma scale_admits_sym: "scale_admits g u v w \<Longrightarrow> scale_admits g v u w"
  by (simp add: scale_admits_def distance_between_sym)

lemma admissible_on_step:
  assumes wf: "wf_graph g" and st: "set_edge g u v w b True = Inr g1" and inv: "admissible_on g S"
  shows "admissible_on g1 (S \<union> {(u, v)} \<union> (if b then {(v, u)} else {}))"
proof -
  note s = set_edge_update_step[OF wf st]
  have gi: "get_edge_val g1 i j = (if (i = u \<and> j = v) \<or> (b \<and> i = v \<and> j = u) then w else get_edge_val g i j)"
    for i j
    using wf s(5,6,7) by (simp add: get_edge_val_def wf_graph_def get_item_set_item)
  show ?thesis
    unfolding admissible_on_def
  proof (clarify)
    fix i j assume ij: "(i, j) \<in> S \<union> {(u, v)} \<union> (if b then {(v, u)} else {})"
    show "scale_admits g1 i j (get_edge_val g1 i j)"
    proof (cases "(i = u \<and> j = v) \<or> (b \<and> i = v \<and> j = u)")
      case True
      then show ?thesis using s(4) scale_admits_sym[OF s(4)] gi by auto
    next
      case False
      then have "(i, j) \<in> S" using ij by (auto split: if_splits)
      then have "scale_admits g i j (get_edge_val g i j)" using inv by (auto simp: admissible_on_def)
      then have "scale_admits g1 i j (get_edge_val g i j)" using scale_admits_mono[OF _ s(3) s(2)] by simp
      moreover have "get_edge_val g1 i j = get_edge_val g i j" using False gi by auto
      ultimately show ?thesis by simp
    qed
  qed
qed

lemma set_edges_invariant:
  assumes "wf_graph g" "set_edges g calls = Inr g'" "admissible_on g S"
  shows "wf_graph g' \<and> vertex_positions g' = vertex_positions g \<and>
         heuristic_scale g' \<le> heuristic_scale g \<and> admissible_on g' (S \<union> written calls) \<and>
         (\<forall>(u, v, w, b) \<in> set calls. scale_admits g' u v w)"
  using assms
proof (induction calls arbitrary: g S)
  case Nil
  then show ?case by simp
next
  case (Cons c calls)
  obtain u v w b where c: "c = (u, v, w, b)" by (cases c) auto
  from Cons.prems(2) c obtain g1 where st: "set_edge g u v w b True = Inr g1"
    and rest: "set_edges g1 calls = Inr g'" by (auto split: sum.splits)
  note s = set_edge_update_step[OF Cons.prems(1) st]
  note a = admissible_on_step[OF Cons.prems(1) st Cons.prems(3)]
  from Cons.IH[OF s(1) rest a]
  have ih: "wf_graph g'" "vertex_positions g' = vertex_positions g1"
    "heuristic_scale g' \<le> heuristic_scale g1"
    "admissible_on g' (S \<union> {(u, v)} \<union> (if b then {(v, u)} else {}) \<union> written calls)"
    "\<forall>(u, v, w, b) \<in> set calls. scale_admits g' u v w" by simp_all
  have "scale_admits g' u v w" using scale_admits_mono[OF s(4) ih(3) ih(2)] .
  moreover have "S \<union> {(u, v)} \<union> (if b then {(v, u)} else {}) \<union> written calls = S \<union> written (c # calls)"
    using c by auto
  ultimately show ?case using ih s c by auto
qed


lemma set_edges_wf: "wf_graph g \<Longrightarrow> set_edges g calls = Inr g' \<Longrightarrow> wf_graph g'"
  using set_edges_invariant[of g calls g' "{}"] by (simp add: admissible_on_def)


lemma distance_between_examples: "distance_between (Vec2D 0 0) (Vec2D 1 0) = 1" "distance_between (Vec2D 1 0) (Vec2D 0 0) = 1"
  "distance_between (Vec2D 0 0) (Vec2D 0 0) = 0" "distance_between (Vec2D 1 0) (Vec2D 1 0) = 0"
  by (simp_all add: distance_between_def magnitude_def squared_magnitude_def vec_sub_def)


subsection \<open>WeightedGraph.greedy\<close>

text \<open>
  C8 (greedy returns a path to every reachable target).  When the target is the source
  itself the search never discovers it (its distance is set before the loop), visits
  everything it can reach and returns \<open>None\<close>: on the graph of two joined vertices,
  \<open>greedy(0, 0)\<close> is \<open>None\<close>, while \<open>dijkstra(0, 0)\<close> returns the distance 0.
\<close>

theorem greedy_source_as_target:
  "greedy graph_two 0 0 = Some (Inr None) \<and>
   dijkstra graph_two 0 0 = Some (Inr (Some ([0, 0], [0, 1])))"
proof -
  have 1: "greedy graph_two 0 0 = Some (Inr None)"
    by (simp add: greedy_def graph_two_def vertices_def greedy_while.simps pq_empty_def pq_dequeue_def
        extract_root_def pop_at_def pq_enqueue_def insert_item_def heuristic_def
        distance_between_examples get_edge_def get_item_def left_index_def get_edge_val_def
        upt_conv_Cons parent_index_def up_heapify.simps down_heapify.simps)
  have 2: "dijkstra graph_two 0 0 = Some (Inr (Some ([0, 0], [0, 1])))"
    by code_simp
  show ?thesis using 1 2 by simp
qed

subsection \<open>DynamicBinaryHeap\<close>

lemma parent_index_less: "0 < j \<Longrightarrow> parent_index j < j"
  by (simp add: parent_index_def)

lemma parent_index_child: "0 < j \<Longrightarrow> parent_index j = i \<longleftrightarrow> j = left_index i \<or> j = right_index i"
  unfolding parent_index_def left_index_def right_index_def by arith

lemma length_up_heapify [simp]: "length (up_heapify h i) = length h"
proof (induction h i rule: up_heapify.induct)
  case (1 h index)
  show ?case
    using "1.IH" by (subst up_heapify.simps) simp
qed


lemma heap_up_pre_swap:
  assumes pre: "heap_up_pre h i" and i: "i < length h" "0 < i"
    and lt: "snd (h ! i) < snd (h ! parent_index i)"
  shows "heap_up_pre (h[i := h ! parent_index i, parent_index i := h ! i]) (parent_index i)"
proof -
  let ?p = "parent_index i"
  let ?h = "h[i := h ! ?p, ?p := h ! i]"
  have p: "?p < i" using i by (simp add: parent_index_less)
  have nth: "?h ! k = (if k = ?p then h ! i else if k = i then h ! ?p else h ! k)" if "k < length h" for k
    using that p i by (simp add: nth_list_update)
  have A: "snd (h ! parent_index j) \<le> snd (h ! j)" if "j < length h" "0 < j" "j \<noteq> i" for j
    using pre that by (simp add: heap_up_pre_def)
  have B: "snd (h ! ?p) \<le> snd (h ! c)" if "c < length h" "0 < c" "parent_index c = i" for c
    using pre that i by (simp add: heap_up_pre_def)
  show ?thesis
    unfolding heap_up_pre_def
  proof (intro conjI allI impI)
    fix j assume j: "j < length ?h" "0 < j \<and> j \<noteq> ?p"
    then have jl: "j < length h" and pj: "parent_index j < length h" "parent_index j < j"
      using parent_index_less[of j] by auto
    show "snd (?h ! parent_index j) \<le> snd (?h ! j)"
    proof (cases "j = i")
      case True
      then show ?thesis using nth[OF jl] nth[OF pj(1)] lt p by simp
    next
      case False
      consider "parent_index j = i" | "parent_index j = ?p" | "parent_index j \<noteq> i" "parent_index j \<noteq> ?p"
        by blast
      then show ?thesis
      proof cases
        case 1
        then show ?thesis using nth[OF jl] nth[OF pj(1)] False j B[OF jl] p by simp
      next
        case 2
        have "snd (h ! i) \<le> snd (h ! j)" using lt A[OF jl _ False] j 2 by simp
        then show ?thesis using nth[OF jl] nth[OF pj(1)] False j 2 by simp
      next
        case 3
        then show ?thesis using nth[OF jl] nth[OF pj(1)] False j A[OF jl] by simp
      qed
    qed
  next
    fix c assume c: "c < length ?h" "0 < c \<and> parent_index c = ?p \<and> 0 < ?p"
    then have cl: "c < length h" by simp
    have pp: "parent_index ?p < ?p" using c by (simp add: parent_index_less)
    have ppl: "parent_index ?p < length h" using pp p i by simp
    have pl: "?p < length h" using p i by simp
    have cp: "c \<noteq> ?p" using c parent_index_less[of c] by auto
    have 1: "snd (h ! parent_index ?p) \<le> snd (h ! ?p)" using A[OF pl] c p by simp
    show "snd (?h ! parent_index ?p) \<le> snd (?h ! c)"
    proof (cases "c = i")
      case True
      then show ?thesis using nth[OF cl] nth[OF ppl] pp p 1 by simp
    next
      case False
      have "snd (h ! ?p) \<le> snd (h ! c)" using A[OF cl _ False] c by simp
      then show ?thesis using nth[OF cl] nth[OF ppl] pp p 1 False cp by simp
    qed
  qed
qed

lemma heap_inv_up_heapify: "i < length h \<Longrightarrow> heap_up_pre h i \<Longrightarrow> heap_inv (up_heapify h i)"
proof (induction h i rule: up_heapify.induct)
  case (1 h index)
  show ?case
  proof (cases "\<not> index = 0 \<and> snd (h ! index) < snd (h ! parent_index index)")
    case True
    then have p: "parent_index index < index" by (simp add: parent_index_less)
    have pre': "heap_up_pre (h[index := h ! parent_index index, parent_index index := h ! index]) (parent_index index)"
      using heap_up_pre_swap[OF "1.prems"(2) "1.prems"(1)] True by simp
    have "heap_inv (up_heapify (h[index := h ! parent_index index, parent_index index := h ! index]) (parent_index index))"
      using "1.IH"[OF True _ pre'] p "1.prems"(1) by simp
    then show ?thesis using True by (subst up_heapify.simps) simp
  next
    case False
    have "heap_inv h"
      unfolding heap_inv_def
    proof (intro allI impI)
      fix j assume j: "j < length h" "0 < j"
      show "snd (h ! parent_index j) \<le> snd (h ! j)"
      proof (cases "j = index")
        case True
        then show ?thesis using False j by auto
      next
        case F: False
        then show ?thesis using "1.prems"(2) j by (simp add: heap_up_pre_def)
      qed
    qed
    then show ?thesis using False by (subst up_heapify.simps) auto
  qed
qed


lemma min_child_cases:
  assumes "left_index i < length h"
  shows "(min_child h i = i \<and> snd (h ! i) \<le> snd (h ! left_index i) \<and>
            (right_index i < length h \<longrightarrow> snd (h ! i) \<le> snd (h ! right_index i))) \<or>
         (min_child h i \<noteq> i \<and> min_child h i < length h \<and> parent_index (min_child h i) = i \<and>
            i < min_child h i \<and> snd (h ! min_child h i) < snd (h ! i) \<and>
            snd (h ! min_child h i) \<le> snd (h ! left_index i) \<and>
            (right_index i < length h \<longrightarrow> snd (h ! min_child h i) \<le> snd (h ! right_index i)))"
  using assms
  by (auto simp: min_child_def Let_def left_index_def right_index_def parent_index_def)

lemma length_down_heapify [simp]: "length (down_heapify h i) = length h"
proof (induction h i rule: down_heapify.induct)
  case (1 h index)
  show ?case
    using "1.IH" by (subst down_heapify.simps) simp
qed

lemma mset_down_heapify: "mset (down_heapify h i) = mset h"
proof (induction h i rule: down_heapify.induct)
  case (1 h index)
  show ?case
  proof (cases "left_index index < length h \<and> min_child h index \<noteq> index")
    case True
    then have m: "min_child h index < length h" "index < min_child h index"
      using min_child_cases[of index h] by auto
    have "mset (down_heapify h index) =
          mset (down_heapify (h[min_child h index := h ! index, index := h ! min_child h index]) (min_child h index))"
      using True by (subst down_heapify.simps) simp
    also have "\<dots> = mset (h[min_child h index := h ! index, index := h ! min_child h index])"
      using "1.IH" True by simp
    also have "\<dots> = mset h"
      using m by (simp add: mset_swap)
    finally show ?thesis .
  next
    case False
    then show ?thesis by (subst down_heapify.simps) auto
  qed
qed

lemma heap_down_pre_swap:
  assumes pre: "heap_down_pre h i" and l: "left_index i < length h" and ne: "min_child h i \<noteq> i"
  shows "heap_down_pre (h[min_child h i := h ! i, i := h ! min_child h i]) (min_child h i)"
proof -
  let ?m = "min_child h i"
  let ?h = "h[?m := h ! i, i := h ! ?m]"
  have m: "?m < length h" "parent_index ?m = i" "i < ?m" "snd (h ! ?m) < snd (h ! i)"
    "snd (h ! ?m) \<le> snd (h ! left_index i)"
    "right_index i < length h \<longrightarrow> snd (h ! ?m) \<le> snd (h ! right_index i)"
    using min_child_cases[OF l] ne by auto
  have il: "i < length h" using m by simp
  have nth: "?h ! k = (if k = i then h ! ?m else if k = ?m then h ! i else h ! k)" if "k < length h" for k
    using that m by (simp add: nth_list_update)
  have A: "snd (h ! parent_index j) \<le> snd (h ! j)" if "j < length h" "0 < j" "parent_index j \<noteq> i" for j
    using pre that by (simp add: heap_down_pre_def)
  have B: "snd (h ! parent_index i) \<le> snd (h ! c)" if "c < length h" "0 < c" "parent_index c = i" "0 < i" for c
    using pre that by (simp add: heap_down_pre_def)
  have sib: "snd (h ! ?m) \<le> snd (h ! c)" if "c < length h" "0 < c" "parent_index c = i" for c
    using that m(5,6) parent_index_child[of c i] by auto
  show ?thesis
    unfolding heap_down_pre_def
  proof (intro conjI allI impI)
    fix j assume j: "j < length ?h" "0 < j \<and> parent_index j \<noteq> ?m"
    then have jl: "j < length h" and pj: "parent_index j < length h" "parent_index j < j"
      using parent_index_less[of j] by auto
    show "snd (?h ! parent_index j) \<le> snd (?h ! j)"
    proof (cases "j = ?m")
      case True
      then show ?thesis using nth[OF jl] nth[OF pj(1)] m by simp
    next
      case jm: False
      show ?thesis
      proof (cases "j = i")
        case True
        then have "0 < i" using j by simp
        then have "snd (h ! parent_index i) \<le> snd (h ! ?m)" using B[OF m(1) _ m(2)] m(3) by simp
        moreover have "parent_index i \<noteq> i" "parent_index i \<noteq> ?m"
          using parent_index_less[of i] \<open>0 < i\<close> m(3) by auto
        ultimately show ?thesis using nth[OF jl] nth[OF pj(1)] True by simp
      next
        case ji: False
        show ?thesis
        proof (cases "parent_index j = i")
          case True
          then show ?thesis using nth[OF jl] nth[OF pj(1)] jm ji sib[OF jl] j by simp
        next
          case False
          then show ?thesis using nth[OF jl] nth[OF pj(1)] jm ji j A[OF jl] by simp
        qed
      qed
    qed
  next
    fix c assume c: "c < length ?h" "0 < c \<and> parent_index c = ?m \<and> 0 < ?m"
    then have cl: "c < length h" by simp
    have cm: "?m < c" using c parent_index_less[of c] by auto
    have "snd (h ! ?m) \<le> snd (h ! c)" using A[OF cl] c m(3) by auto
    then show "snd (?h ! parent_index ?m) \<le> snd (?h ! c)"
      using nth[OF cl] nth[OF il] m cm by simp
  qed
qed

lemma heap_inv_down_heapify: "heap_down_pre h i \<Longrightarrow> heap_inv (down_heapify h i)"
proof (induction h i rule: down_heapify.induct)
  case (1 h index)
  show ?case
  proof (cases "left_index index < length h \<and> min_child h index \<noteq> index")
    case True
    have pre': "heap_down_pre (h[min_child h index := h ! index, index := h ! min_child h index]) (min_child h index)"
      using heap_down_pre_swap[OF "1.prems"] True by simp
    have "heap_inv (down_heapify (h[min_child h index := h ! index, index := h ! min_child h index]) (min_child h index))"
      using "1.IH"[OF _ _ pre'] True by simp
    then show ?thesis using True by (subst down_heapify.simps) simp
  next
    case False
    have "heap_inv h"
      unfolding heap_inv_def
    proof (intro allI impI)
      fix j assume j: "j < length h" "0 < j"
      show "snd (h ! parent_index j) \<le> snd (h ! j)"
      proof (cases "parent_index j = index")
        case True
        then have jc: "j = left_index index \<or> j = right_index index"
          using parent_index_child[of j index] j by simp
        then have "left_index index < length h" using j by (auto simp: left_index_def right_index_def)
        then have "min_child h index = index" using False by simp
        then show ?thesis using min_child_cases[OF \<open>left_index index < length h\<close>] jc j True by auto
      next
        case F: False
        then show ?thesis using "1.prems" j by (simp add: heap_down_pre_def)
      qed
    qed
    then show ?thesis using False by (subst down_heapify.simps) auto
  qed
qed

lemma heap_inv_root_min: "heap_inv h \<Longrightarrow> i < length h \<Longrightarrow> snd (h ! 0) \<le> snd (h ! i)"
proof (induction i rule: less_induct)
  case (less i)
  show ?case
  proof (cases "i = 0")
    case True
    then show ?thesis by simp
  next
    case False
    then have p: "parent_index i < i" by (simp add: parent_index_less)
    have "snd (h ! 0) \<le> snd (h ! parent_index i)" using less.IH[OF p less.prems(1)] p less.prems(2) by simp
    moreover have "snd (h ! parent_index i) \<le> snd (h ! i)"
      using less.prems False by (simp add: heap_inv_def)
    ultimately show ?thesis by simp
  qed
qed


lemma heap_inv_insert_item: "heap_inv h \<Longrightarrow> heap_inv (insert_item h x p)"
proof -
  assume hi: "heap_inv h"
  have "heap_up_pre (h @ [(x, p)]) (length h)"
    unfolding heap_up_pre_def
  proof (intro conjI allI impI)
    fix j assume j: "j < length (h @ [(x, p)])" "0 < j \<and> j \<noteq> length h"
    then have jl: "j < length h" by simp
    then have "parent_index j < length h" using parent_index_less[of j] j by simp
    then show "snd ((h @ [(x, p)]) ! parent_index j) \<le> snd ((h @ [(x, p)]) ! j)"
      using hi jl j by (simp add: heap_inv_def nth_append)
  next
    fix c assume c: "c < length (h @ [(x, p)])" "0 < c \<and> parent_index c = length h \<and> 0 < length h"
    then have "parent_index c < c" using parent_index_less[of c] by simp
    then have False using c by simp
    then show "snd ((h @ [(x, p)]) ! parent_index (length h)) \<le> snd ((h @ [(x, p)]) ! c)" ..
  qed
  then show ?thesis
    using heap_inv_up_heapify[of "length h" "h @ [(x, p)]"] by (simp add: insert_item_def Let_def)
qed


lemma get_index_Some:
  "get_index h x = Some i \<Longrightarrow> i < length h \<and> fst (h ! i) = x \<and> (\<forall>j < i. fst (h ! j) \<noteq> x)"
  by (auto simp: get_index_def find_Some_iff)


lemma heap_inv_decrease:
  assumes hi: "heap_inv h" and i: "i < length h" and le: "p \<le> snd (h ! i)"
  shows "heap_inv (up_heapify (h[i := (x, p)]) i)"
proof -
  have "heap_up_pre (h[i := (x, p)]) i"
    unfolding heap_up_pre_def
  proof (intro conjI allI impI)
    fix j assume j: "j < length (h[i := (x, p)])" "0 < j \<and> j \<noteq> i"
    then have jl: "j < length h" by simp
    have 1: "snd (h ! parent_index j) \<le> snd (h ! j)" using hi jl j by (simp add: heap_inv_def)
    show "snd (h[i := (x, p)] ! parent_index j) \<le> snd (h[i := (x, p)] ! j)"
    proof (cases "parent_index j = i")
      case True
      then show ?thesis using 1 le j i by simp
    next
      case False
      then show ?thesis using 1 j by simp
    qed
  next
    fix c assume c: "c < length (h[i := (x, p)])" "0 < c \<and> parent_index c = i \<and> 0 < i"
    then have cl: "c < length h" by simp
    have ci: "c \<noteq> i" using c parent_index_less[of c] by auto
    have pi: "parent_index i \<noteq> i" using c parent_index_less[of i] by auto
    have "snd (h ! parent_index i) \<le> snd (h ! i)" using hi i c by (simp add: heap_inv_def)
    moreover have "snd (h ! i) \<le> snd (h ! c)" using hi cl c by (auto simp: heap_inv_def)
    ultimately show "snd (h[i := (x, p)] ! parent_index i) \<le> snd (h[i := (x, p)] ! c)"
      using ci pi by simp
  qed
  then show ?thesis using heap_inv_up_heapify[of i "h[i := (x, p)]"] i by simp
qed

lemma heap_inv_decrease_priority_or_insert:
  assumes "heap_inv h" "\<forall>index. get_index h x = Some index \<longrightarrow> p \<le> snd (h ! index)"
  shows "heap_inv (decrease_priority_or_insert h x p)"
proof (cases "get_index h x")
  case None
  then show ?thesis using assms by (simp add: decrease_priority_or_insert_def heap_inv_insert_item)
next
  case (Some i)
  then have "i < length h" "p \<le> snd (h ! i)" using assms get_index_Some[OF Some] by auto
  then show ?thesis using Some assms(1) by (simp add: decrease_priority_or_insert_def heap_inv_decrease)
qed


lemma extract_root_props:
  assumes hi: "heap_inv h" and ne: "h \<noteq> []"
  shows "\<exists>h'. extract_root h = Inr (h ! 0, h') \<and> heap_inv h' \<and> mset h' = mset h - {#h ! 0#}"
proof -
  let ?n = "length h"
  let ?h1 = "h[0 := h ! (?n - 1)]"
  let ?h2 = "pop_at (length ?h1 - 1) ?h1"
  have n: "0 < ?n" using ne by simp
  have h2: "?h2 = butlast ?h1"
    by (simp add: pop_at_def butlast_conv_take)
  have er: "extract_root h = Inr (h ! 0, down_heapify ?h2 0)"
    using n by (simp add: extract_root_def Let_def)
  have len2: "length ?h2 = ?n - 1" using h2 by simp
  have nth2: "?h2 ! k = (if k = 0 then h ! (?n - 1) else h ! k)" if "k < ?n - 1" for k
    using that h2 n by (auto simp: nth_butlast nth_list_update)
  have pre: "heap_down_pre ?h2 0"
    unfolding heap_down_pre_def
  proof (intro conjI allI impI)
    fix j assume j: "j < length ?h2" "0 < j \<and> parent_index j \<noteq> 0"
    then have jl: "j < ?n - 1" using len2 by simp
    have pj: "parent_index j < ?n - 1" using parent_index_less[of j] j jl by simp
    have "snd (h ! parent_index j) \<le> snd (h ! j)" using hi jl j by (simp add: heap_inv_def)
    then show "snd (?h2 ! parent_index j) \<le> snd (?h2 ! j)"
      using nth2[OF jl] nth2[OF pj] j by simp
  next
    fix c assume "c < length ?h2" "0 < c \<and> parent_index c = 0 \<and> (0::nat) < 0"
    then show "snd (?h2 ! parent_index 0) \<le> snd (?h2 ! c)" by simp
  qed
  have ms: "mset ?h2 = mset h - {#h ! 0#}"
  proof -
    have l1: "?h1 \<noteq> []" using ne by simp
    have "mset ?h1 = add_mset (last ?h1) (mset ?h2)"
      using h2 append_butlast_last_id[OF l1] by (metis mset.simps(2) mset_append add_mset_add_single union_mset_add_mset_right add.right_neutral mset.simps(1))
    moreover have "last ?h1 = h ! (?n - 1)"
      using n by (cases "?n - 1 = 0") (simp_all add: last_conv_nth)
    moreover have "mset ?h1 = add_mset (h ! (?n - 1)) (mset h - {#h ! 0#})"
      using n by (simp add: mset_update)
    ultimately show ?thesis by simp
  qed
  show ?thesis
    using er heap_inv_down_heapify[OF pre] ms by (simp add: mset_down_heapify)
qed

lemma heap_reachable_inv: "heap_reachable h \<Longrightarrow> heap_inv h"
proof (induction rule: heap_reachable.induct)
  case reach_init
  then show ?case by (simp add: heap_inv_def)
next
  case (reach_insert h item priority)
  then show ?case by (simp add: heap_inv_insert_item)
next
  case (reach_extract h r h')
  then show ?case using extract_root_props[of h] by (cases "h = []") (auto simp: extract_root_def)
next
  case (reach_decrease h item new_priority)
  then show ?case by (simp add: heap_inv_decrease_priority_or_insert)
qed

text \<open>
  C10 (extract_root returns an entry of minimal priority).  On every heap that a
  sequence of insert_item, extract_root and decrease_priority_or_insert calls (none
  raising a priority) builds from the empty heap: extract_root returns when the heap is
  not empty; the entry it returns is stored in the heap and no stored entry has a smaller
  priority; the heap it leaves holds the other entries; and the next extract_root
  returns an entry of the same or a larger priority, so that dequeue hands out the items
  in non-decreasing order of priority.
\<close>

theorem extract_root_minimal:
  assumes "heap_reachable h"
  shows "(h \<noteq> [] \<longrightarrow> (\<exists>r h'. extract_root h = Inr (r, h'))) \<and>
         (\<forall>r h'. extract_root h = Inr (r, h') \<longrightarrow>
            r \<in> set h \<and> (\<forall>e \<in> set h. snd r \<le> snd e) \<and> mset h' = mset h - {#r#} \<and>
            (\<forall>r2 h2. extract_root h' = Inr (r2, h2) \<longrightarrow> snd r \<le> snd r2))"
proof (intro conjI allI impI)
  have hi: "heap_inv h" using assms by (rule heap_reachable_inv)
  show "\<exists>r h'. extract_root h = Inr (r, h')" if "h \<noteq> []"
    using extract_root_props[OF hi that] by blast
  fix r h' assume ex: "extract_root h = Inr (r, h')"
  then have ne: "h \<noteq> []" by (auto simp: extract_root_def)
  from extract_root_props[OF hi ne] ex
  have r: "r = h ! 0" and hi': "heap_inv h'" and ms: "mset h' = mset h - {#h ! 0#}" by auto
  show "r \<in> set h" using r ne by simp
  show min: "\<forall>e \<in> set h. snd r \<le> snd e"
    using heap_inv_root_min[OF hi] r by (metis in_set_conv_nth)
  show "mset h' = mset h - {#r#}" using ms r by simp
  fix r2 h2 assume ex2: "extract_root h' = Inr (r2, h2)"
  then have ne': "h' \<noteq> []" by (auto simp: extract_root_def)
  from extract_root_props[OF hi' ne'] ex2 have "r2 = h' ! 0" by auto
  then have "r2 \<in># mset h'" using ne' by simp
  then have "r2 \<in># mset h" unfolding ms by (rule in_diffD)
  then show "snd r \<le> snd r2" using min by simp
qed

theorem extract_root_minimal_witness:
  "heap_reachable (insert_item (insert_item (insert_item [] ''a'' (5::int)) ''b'' 3) ''c'' 4) \<and>
   insert_item (insert_item (insert_item [] ''a'' (5::int)) ''b'' 3) ''c'' 4 = [(''b'', 3), (''a'', 5), (''c'', 4)] \<and>
   extract_root [(''b'', 3), (''a'', 5), (''c'', 4::int)] = Inr ((''b'', 3), [(''c'', 4), (''a'', 5)]) \<and>
   extract_root [(''c'', 4), (''a'', 5::int)] = Inr ((''c'', 4), [(''a'', 5)]) \<and>
   (3::int) \<le> 4"
proof -
  have h1: "heap_reachable (insert_item (insert_item (insert_item [] ''a'' (5::int)) ''b'' 3) ''c'' 4)"
    by (intro heap_reachable.intros)
  have h2: "insert_item (insert_item (insert_item [] ''a'' (5::int)) ''b'' 3) ''c'' 4 = [(''b'', 3), (''a'', 5), (''c'', 4)]"
    by code_simp
  have h3: "extract_root [(''b'', 3), (''a'', 5), (''c'', 4::int)] = Inr ((''b'', 3), [(''c'', 4), (''a'', 5)])"
    by code_simp
  have h4: "extract_root [(''c'', 4), (''a'', 5::int)] = Inr ((''c'', 4), [(''a'', 5)])"
    by code_simp
  show ?thesis
    using extract_root_minimal[OF h1] h1 h2 h3 h4 by auto
qed

subsection \<open>Graph.bfs\<close>

lemma card_undiscovered_update:
  assumes "k < n" "dists ! k = - 1" "x \<noteq> - 1" "length dists = n"
  shows "Suc (card {v. v < n \<and> dists[k := x] ! v = - 1}) = card {v. v < n \<and> dists ! v = (- 1 :: int)}"
proof -
  have fin: "finite {v. v < n \<and> dists ! v = - 1}" by simp
  have "{v. v < n \<and> dists[k := x] ! v = - 1} = {v. v < n \<and> dists ! v = - 1} - {k}"
    using assms by (auto simp: nth_list_update)
  moreover have "k \<in> {v. v < n \<and> dists ! v = - 1}" using assms by simp
  ultimately show ?thesis using fin by (metis card_Suc_Diff1)
qed

lemma bfs_invD:
  assumes "bfs_inv g s t (prev, dists, q) k"
  shows "length dists = vertices g" "length prev = vertices g"
    "back_pointer q \<le> length (queue_data q)"
    "\<forall>v \<in> set (queue_data q). v < vertices g" "s \<in> set (queue_data q)"
    "\<forall>v < vertices g. - 1 \<le> dists ! v"
    "\<forall>v < vertices g. dists ! v \<noteq> - 1 \<longrightarrow> v \<in> set (queue_data q) \<and> (s, v) \<in> (edge_rel g)\<^sup>+"
    "\<forall>v \<in> set (queue_data q). v = s \<or> dists ! v \<noteq> - 1"
    "\<forall>i. Suc i < back_pointer q \<longrightarrow>
        (\<forall>v < vertices g. get_edge g (queue_data q ! i) v \<longrightarrow> dists ! v \<noteq> - 1)"
    "0 < back_pointer q \<longrightarrow>
        (\<forall>v < k. v < vertices g \<and> get_edge g (queue_data q ! (back_pointer q - 1)) v \<longrightarrow> dists ! v \<noteq> - 1)"
    "t < vertices g \<longrightarrow> dists ! t = - 1"
  using assms by (simp_all add: bfs_inv_def)

lemma bfs_inv_cur:
  assumes inv: "bfs_inv g s t (prev, dists, q) k" and bp: "0 < back_pointer q"
    and cur: "cur = queue_data q ! (back_pointer q - 1)"
  shows "cur \<in> set (queue_data q)" "cur < vertices g" "dists ! cur + 1 \<noteq> - 1"
    "cur = s \<or> (s, cur) \<in> (edge_rel g)\<^sup>+"
proof -
  note I = bfs_invD[OF inv]
  have "back_pointer q - 1 < length (queue_data q)" using bp I(3) by simp
  then show curin: "cur \<in> set (queue_data q)" unfolding cur by (rule nth_mem)
  then show curn: "cur < vertices g" using I(4) by simp
  have "- 1 \<le> dists ! cur" using I(6) curn by simp
  then show "dists ! cur + 1 \<noteq> - 1" by simp
  show "cur = s \<or> (s, cur) \<in> (edge_rel g)\<^sup>+" using I(7,8) curin curn by blast
qed

lemma bfs_inv_discover:
  assumes inv: "bfs_inv g s t (prev, dists, q) k" and kn: "k < vertices g"
    and und: "dists ! k = - 1" and ed: "get_edge g cur k" and kt: "k \<noteq> t"
    and bp: "0 < back_pointer q" and cur: "cur = queue_data q ! (back_pointer q - 1)"
  shows "bfs_inv g s t (prev[k := int cur], dists[k := dists ! cur + 1], enqueue q k) (Suc k)"
proof -
  let ?n = "vertices g"
  let ?d = "queue_data q"
  let ?ds = "dists[k := dists ! cur + 1]"
  have I1: "length dists = ?n" and I2: "length prev = ?n" and I3: "back_pointer q \<le> length ?d"
    and I4: "\<forall>v \<in> set ?d. v < ?n" and I5: "s \<in> set ?d" and I6: "\<forall>v < ?n. - 1 \<le> dists ! v"
    and I7: "\<forall>v < ?n. dists ! v \<noteq> - 1 \<longrightarrow> v \<in> set ?d \<and> (s, v) \<in> (edge_rel g)\<^sup>+"
    and I8: "\<forall>v \<in> set ?d. v = s \<or> dists ! v \<noteq> - 1"
    and I9: "\<forall>i. Suc i < back_pointer q \<longrightarrow> (\<forall>v < ?n. get_edge g (?d ! i) v \<longrightarrow> dists ! v \<noteq> - 1)"
    and I10: "\<forall>v < k. v < ?n \<and> get_edge g (?d ! (back_pointer q - 1)) v \<longrightarrow> dists ! v \<noteq> - 1"
    and I11: "t < ?n \<longrightarrow> dists ! t = - 1"
    using inv bp by (simp_all add: bfs_inv_def)
  have curin: "cur \<in> set ?d" using bp I3 cur by simp
  have curn: "cur < ?n" using I4 curin by simp
  have newd: "dists ! cur + 1 \<noteq> - 1" using I6 curn by fastforce
  have reachk: "(s, k) \<in> (edge_rel g)\<^sup>+"
  proof -
    have e: "(cur, k) \<in> edge_rel g" using ed curn kn by (simp add: edge_rel_def)
    show ?thesis
    proof (cases "cur = s")
      case True then show ?thesis using e by auto
    next
      case False
      then have "(s, cur) \<in> (edge_rel g)\<^sup>+" using I7 I8 curin curn by blast
      then show ?thesis using e by (rule trancl_into_trancl)
    qed
  qed
  have nd: "?ds ! v = (if v = k then dists ! cur + 1 else dists ! v)" if "v < ?n" for v
    using that I1 kn by (simp add: nth_list_update)
  have keep: "?ds ! v \<noteq> - 1" if "v < ?n" "dists ! v \<noteq> - 1" for v
    using that nd newd by simp
  have qd: "queue_data (enqueue q k) = ?d @ [k]" and qb: "back_pointer (enqueue q k) = back_pointer q"
    by (simp_all add: enqueue_def)
  have nth_old: "(?d @ [k]) ! i = ?d ! i" if "i < back_pointer q" for i
    using that I3 by (simp add: nth_append)
  have J6: "\<forall>v < ?n. - 1 \<le> ?ds ! v"
  proof (intro allI impI)
    fix v assume "v < ?n"
    then show "- 1 \<le> ?ds ! v" using nd[of v] I6 curn by (cases "v = k") auto
  qed
  have J7: "\<forall>v < ?n. ?ds ! v \<noteq> - 1 \<longrightarrow> v \<in> set (?d @ [k]) \<and> (s, v) \<in> (edge_rel g)\<^sup>+"
  proof (intro allI impI)
    fix v assume v: "v < ?n" "?ds ! v \<noteq> - 1"
    show "v \<in> set (?d @ [k]) \<and> (s, v) \<in> (edge_rel g)\<^sup>+"
    proof (cases "v = k")
      case True then show ?thesis using reachk by simp
    next
      case False
      then have "dists ! v \<noteq> - 1" using v nd[of v] by simp
      then show ?thesis using I7 v by simp
    qed
  qed
  have J8: "\<forall>v \<in> set (?d @ [k]). v = s \<or> ?ds ! v \<noteq> - 1"
  proof
    fix v assume v: "v \<in> set (?d @ [k])"
    show "v = s \<or> ?ds ! v \<noteq> - 1"
    proof (cases "v = k")
      case True then show ?thesis using nd[of k] kn newd by simp
    next
      case False
      then have vd: "v \<in> set ?d" using v by simp
      then show ?thesis using I8 I4 keep[of v] by blast
    qed
  qed
  have J9: "\<forall>i. Suc i < back_pointer q \<longrightarrow> (\<forall>v < ?n. get_edge g ((?d @ [k]) ! i) v \<longrightarrow> ?ds ! v \<noteq> - 1)"
  proof (intro allI impI)
    fix i v assume a: "Suc i < back_pointer q" "v < ?n" "get_edge g ((?d @ [k]) ! i) v"
    then have "get_edge g (?d ! i) v" using nth_old[of i] by simp
    then have "dists ! v \<noteq> - 1" using I9 a by blast
    then show "?ds ! v \<noteq> - 1" using keep a by simp
  qed
  have J10: "\<forall>v < Suc k. v < ?n \<and> get_edge g ((?d @ [k]) ! (back_pointer q - 1)) v \<longrightarrow> ?ds ! v \<noteq> - 1"
  proof (intro allI impI)
    fix v assume a: "v < Suc k" "v < ?n \<and> get_edge g ((?d @ [k]) ! (back_pointer q - 1)) v"
    show "?ds ! v \<noteq> - 1"
    proof (cases "v = k")
      case True then show ?thesis using nd[of k] kn newd by simp
    next
      case False
      then have "v < k" using a by simp
      moreover have "get_edge g (?d ! (back_pointer q - 1)) v" using a nth_old[of "back_pointer q - 1"] bp by simp
      ultimately have "dists ! v \<noteq> - 1" using I10 a by blast
      then show ?thesis using keep a by simp
    qed
  qed
  have J11: "t < ?n \<longrightarrow> ?ds ! t = - 1" using I11 nd[of t] kt by simp
  have J4: "\<forall>v \<in> set (?d @ [k]). v < ?n" using I4 kn by simp
  show ?thesis
    unfolding bfs_inv_def prod.case qd qb
    using I1 I2 I3 J4 I5 J6 J7 J8 J9 J10 J11 by simp
qed


lemma bfs_inv_skip:
  assumes inv: "bfs_inv g s t (prev, dists, q) k"
    and no: "\<not> (dists ! k = - 1 \<and> get_edge g cur k)"
    and cur: "cur = queue_data q ! (back_pointer q - 1)"
  shows "bfs_inv g s t (prev, dists, q) (Suc k)"
proof -
  have "\<forall>v < Suc k. v < vertices g \<and> get_edge g (queue_data q ! (back_pointer q - 1)) v \<longrightarrow> dists ! v \<noteq> - 1"
    if "0 < back_pointer q"
  proof (intro allI impI)
    fix v assume a: "v < Suc k" "v < vertices g \<and> get_edge g (queue_data q ! (back_pointer q - 1)) v"
    show "dists ! v \<noteq> - 1"
    proof (cases "v = k")
      case True then show ?thesis using a no cur by auto
    next
      case False
      then have "v < k" using a by simp
      then show ?thesis using inv that a by (simp add: bfs_inv_def)
    qed
  qed
  then show ?thesis using inv by (simp add: bfs_inv_def)
qed

lemma bfs_found_intro:
  assumes inv: "bfs_inv g s t (prev, dists, q) k" and kn: "t < vertices g"
    and ed: "get_edge g cur t"
    and bp: "0 < back_pointer q" and cur: "cur = queue_data q ! (back_pointer q - 1)"
  shows "bfs_found g s t (prev[t := int cur], dists[t := dists ! cur + 1])"
proof -
  note I = bfs_invD[OF inv]
  note C = bfs_inv_cur[OF inv bp cur]
  show ?thesis
    unfolding bfs_found_def prod.case
    using C(2,3,4) kn ed I(1,2) by (intro exI[of _ cur]) simp
qed

lemma bfs_measure_discover:
  assumes inv: "bfs_inv g s t (prev, dists, q) k" and kn: "k < vertices g"
    and und: "dists ! k = - 1" and bp: "0 < back_pointer q"
    and cur: "cur = queue_data q ! (back_pointer q - 1)"
  shows "Suc (bfs_measure g (prev[k := int cur], dists[k := dists ! cur + 1], enqueue q k))
           = bfs_measure g (prev, dists, q)"
proof -
  note I = bfs_invD[OF inv]
  note C = bfs_inv_cur[OF inv bp cur]
  have c: "Suc (card {v. v < vertices g \<and> dists[k := dists ! cur + 1] ! v = - 1}) =
        card {v. v < vertices g \<and> dists ! v = - 1}"
    using card_undiscovered_update[OF kn und C(3) I(1)] .
  have "length (queue_data (enqueue q k)) - back_pointer (enqueue q k) =
        Suc (length (queue_data q) - back_pointer q)"
    using I(3) by (simp add: enqueue_def Suc_diff_le)
  then show ?thesis unfolding bfs_measure_def prod.case using c by linarith
qed

lemma bfs_for_step:
  assumes "bfs_inv g s t (prev, dists, q) k" "k \<le> vertices g" "0 < back_pointer q"
    "cur = queue_data q ! (back_pointer q - 1)"
  shows "case bfs_for g t cur [k..<vertices g] (prev, dists, q) of
           Inl found \<Rightarrow> bfs_found g s t found
         | Inr st1 \<Rightarrow> bfs_inv g s t st1 (vertices g) \<and>
                      bfs_measure g st1 \<le> bfs_measure g (prev, dists, q) \<and>
                      back_pointer (snd (snd st1)) = back_pointer q"
  using assms
proof (induction "vertices g - k" arbitrary: k prev dists q)
  case 0
  then show ?case by simp
next
  case (Suc d)
  have kn: "k < vertices g" using Suc.hyps(2) by simp
  have d: "d = vertices g - Suc k" using Suc.hyps(2) by simp
  have sk: "Suc k \<le> vertices g" using kn by simp
  have upt: "[k..<vertices g] = k # [Suc k..<vertices g]" using kn by (simp add: upt_conv_Cons)
  note inv = Suc.prems(1)
  note bp = Suc.prems(3)
  note cur = Suc.prems(4)
  show ?case
  proof (cases "dists ! k = - 1 \<and> get_edge g cur k")
    case False
    have inv1: "bfs_inv g s t (prev, dists, q) (Suc k)"
      using bfs_inv_skip[OF inv False cur] .
    have eq: "bfs_for g t cur [k..<vertices g] (prev, dists, q) =
              bfs_for g t cur [Suc k..<vertices g] (prev, dists, q)"
      unfolding upt using False by auto
    show ?thesis
      unfolding eq using Suc.hyps(1)[OF d inv1 sk bp cur] .
  next
    case True
    let ?dists1 = "dists[k := dists ! cur + 1]"
    let ?prev1 = "prev[k := int cur]"
    show ?thesis
    proof (cases "k = t")
      case kt: True
      have f: "bfs_found g s t (?prev1, ?dists1)"
        using bfs_found_intro[OF inv _ _ bp cur] True kn kt by simp
      have eq: "bfs_for g t cur [k..<vertices g] (prev, dists, q) = Inl (?prev1, ?dists1)"
        unfolding upt using True kt by (simp add: Let_def)
      show ?thesis unfolding eq using f by simp
    next
      case kt: False
      let ?q1 = "enqueue q k"
      have inv1: "bfs_inv g s t (?prev1, ?dists1, ?q1) (Suc k)"
        using bfs_inv_discover[OF inv kn _ _ kt bp cur] True by simp
      have m1: "Suc (bfs_measure g (?prev1, ?dists1, ?q1)) = bfs_measure g (prev, dists, q)"
        using bfs_measure_discover[OF inv kn _ bp cur] True by simp
      have eq: "bfs_for g t cur [k..<vertices g] (prev, dists, q) =
                bfs_for g t cur [Suc k..<vertices g] (?prev1, ?dists1, ?q1)"
        unfolding upt using True kt by (simp add: Let_def)
      have bq: "back_pointer ?q1 = back_pointer q" by (simp add: enqueue_def)
      have bp1: "0 < back_pointer ?q1" using bp bq by simp
      have "back_pointer q - 1 < length (queue_data q)" using bp bfs_invD(3)[OF inv] by simp
      then have cur1: "cur = queue_data ?q1 ! (back_pointer ?q1 - 1)"
        using cur by (simp add: enqueue_def nth_append)
      note IH = Suc.hyps(1)[OF d inv1 sk bp1 cur1]
      show ?thesis
      proof (cases "bfs_for g t cur [Suc k..<vertices g] (?prev1, ?dists1, ?q1)")
        case (Inl a)
        then show ?thesis unfolding eq using IH by simp
      next
        case (Inr b)
        then show ?thesis unfolding eq using IH m1 bq by simp
      qed
    qed
  qed
qed


lemma bfs_found_reachable: "bfs_found g s t f \<Longrightarrow> (s, t) \<in> (edge_rel g)\<^sup>+"
proof -
  assume "bfs_found g s t f"
  then obtain prev dists cur where f: "f = (prev, dists)" and c: "cur < vertices g" "t < vertices g"
    "get_edge g cur t" "cur = s \<or> (s, cur) \<in> (edge_rel g)\<^sup>+"
    by (cases f) (auto simp: bfs_found_def)
  have e: "(cur, t) \<in> edge_rel g" using c by (simp add: edge_rel_def)
  show ?thesis using c(4) e by (auto intro: trancl_into_trancl)
qed

lemma bfs_inv_exhausted:
  assumes inv: "bfs_inv g s t (prev, dists, q) (vertices g)"
    and emp: "back_pointer q = length (queue_data q)"
  shows "(s, t) \<notin> (edge_rel g)\<^sup>+"
proof
  note I = bfs_invD[OF inv]
  have bp: "0 < back_pointer q" using emp I(5) by (cases "queue_data q") auto
  have closed: "dists ! v \<noteq> - 1" if u: "u \<in> set (queue_data q)" and e: "(u, v) \<in> edge_rel g" for u v
  proof -
    obtain i where i: "i < length (queue_data q)" "u = queue_data q ! i"
      using u by (auto simp: in_set_conv_nth)
    have v: "v < vertices g" "get_edge g u v" using e by (simp_all add: edge_rel_def)
    show ?thesis
    proof (cases "Suc i < back_pointer q")
      case True
      then show ?thesis using I(9) i v by blast
    next
      case False
      then have "i = back_pointer q - 1" using i emp by simp
      then show ?thesis using I(10) bp i v by simp
    qed
  qed
  assume "(s, t) \<in> (edge_rel g)\<^sup>+"
  then have "t < vertices g \<and> dists ! t \<noteq> - 1"
  proof (induction rule: trancl_induct)
    case (base y)
    then show ?case using closed[OF I(5)] by (simp add: edge_rel_def)
  next
    case (step y z)
    then have "y \<in> set (queue_data q)" using I(7) by simp
    then show ?case using closed step(2) by (simp add: edge_rel_def)
  qed
  then show False using I(11) by simp
qed

lemma bfs_inv_dequeue:
  assumes inv: "bfs_inv g s t (prev, dists, q) (vertices g)"
    and ne: "back_pointer q < length (queue_data q)"
  shows "bfs_inv g s t (prev, dists, q\<lparr>back_pointer := back_pointer q + 1\<rparr>) 0"
proof -
  note I = bfs_invD[OF inv]
  have J9: "\<forall>i. Suc i < back_pointer q + 1 \<longrightarrow>
        (\<forall>v < vertices g. get_edge g (queue_data q ! i) v \<longrightarrow> dists ! v \<noteq> - 1)"
  proof (intro allI impI)
    fix i v assume a: "Suc i < back_pointer q + 1" "v < vertices g" "get_edge g (queue_data q ! i) v"
    show "dists ! v \<noteq> - 1"
    proof (cases "Suc i < back_pointer q")
      case True
      then show ?thesis using I(9) a by blast
    next
      case False
      then have "i = back_pointer q - 1" "0 < back_pointer q" using a by simp_all
      then show ?thesis using I(10) a by simp
    qed
  qed
  show ?thesis
    unfolding bfs_inv_def prod.case
    using I(1,2,4,5,6,7,8,11) J9 ne by simp
qed

lemma bfs_while_correct:
  assumes "bfs_inv g s t (prev, dists, q) (vertices g)"
  shows "\<exists>r. bfs_while g t (prev, dists, q) = Some (Inr r) \<and>
           (case r of None \<Rightarrow> (s, t) \<notin> (edge_rel g)\<^sup>+ | Some f \<Rightarrow> bfs_found g s t f)"
  using assms
proof (induction "bfs_measure g (prev, dists, q)" arbitrary: prev dists q rule: less_induct)
  case less
  note inv = less.prems
  note I = bfs_invD[OF inv]
  show ?case
  proof (cases "queue_empty q")
    case True
    then have emp: "back_pointer q = length (queue_data q)"
      by (simp add: queue_empty_def front_pointer_def)
    have "bfs_while g t (prev, dists, q) = Some (Inr None)"
      using True by (subst bfs_while.simps) simp
    then show ?thesis using bfs_inv_exhausted[OF inv emp] by simp
  next
    case False
    then have ne: "back_pointer q < length (queue_data q)"
      using I(3) by (simp add: queue_empty_def front_pointer_def)
    let ?q1 = "q\<lparr>back_pointer := back_pointer q + 1\<rparr>"
    let ?cur = "queue_data q ! back_pointer q"
    have dq: "dequeue q = Inr (?cur, ?q1)" using False by (simp add: dequeue_def)
    have inv0: "bfs_inv g s t (prev, dists, ?q1) 0" using bfs_inv_dequeue[OF inv ne] .
    have bp1: "0 < back_pointer ?q1" by simp
    have cur1: "?cur = queue_data ?q1 ! (back_pointer ?q1 - 1)" by simp
    have z: "[0..<vertices g] = [0..<vertices g]" by simp
    note step = bfs_for_step[OF inv0 _ bp1 cur1, simplified]
    have m0: "Suc (bfs_measure g (prev, dists, ?q1)) = bfs_measure g (prev, dists, q)"
      using ne by (simp add: bfs_measure_def)
    show ?thesis
    proof (cases "bfs_for g t ?cur [0..<vertices g] (prev, dists, ?q1)")
      case (Inl found)
      have "bfs_while g t (prev, dists, q) = Some (Inr (Some found))"
        using False dq Inl by (subst bfs_while.simps) simp
      moreover have "bfs_found g s t found" using step Inl by simp
      ultimately show ?thesis by simp
    next
      case (Inr st1)
      obtain p1 d1 q1 where st1: "st1 = (p1, d1, q1)" by (cases st1) auto
      have w: "bfs_while g t (prev, dists, q) = bfs_while g t (p1, d1, q1)"
        using False dq Inr st1 by (subst bfs_while.simps) simp
      have inv1: "bfs_inv g s t (p1, d1, q1) (vertices g)" and
        m1: "bfs_measure g (p1, d1, q1) \<le> bfs_measure g (prev, dists, ?q1)"
        using step Inr st1 by simp_all
      have "bfs_measure g (p1, d1, q1) < bfs_measure g (prev, dists, q)" using m1 m0 by simp
      from less.hyps[OF this inv1] show ?thesis unfolding w .
    qed
  qed
qed

text \<open>
  What \<open>bfs\<close> does for every graph, every source that is a vertex of the graph and every
  target: it returns; if the target can be reached from the source along at least one
  edge, it returns a pair \<open>(prev, distances)\<close> in which \<open>prev[target]\<close> is a vertex that is
  the source or reachable from it, an edge leads from that vertex to the target, and
  \<open>distances[target]\<close> is set; otherwise it returns \<open>None\<close>.  The value of
  \<open>distances[target]\<close> is the subject of the next theorem.
\<close>

lemma bfs_returns_at_discovery:
  assumes "vert1_id < vertices g"
  shows "((vert1_id, vert2_id) \<in> (edge_rel g)\<^sup>+ \<longrightarrow>
            (\<exists>found. bfs g vert1_id vert2_id = Some (Inr (Some found)) \<and>
                     bfs_found g vert1_id vert2_id found)) \<and>
         ((vert1_id, vert2_id) \<notin> (edge_rel g)\<^sup>+ \<longrightarrow> bfs g vert1_id vert2_id = Some (Inr None))"
proof -
  let ?st = "(replicate (vertices g) (- 1), replicate (vertices g) (- 1), enqueue DynamicQueue_init vert1_id)"
  have inv: "bfs_inv g vert1_id vert2_id
      (replicate (vertices g) (- 1), replicate (vertices g) (- 1), enqueue DynamicQueue_init vert1_id)
      (vertices g)"
    unfolding bfs_inv_def prod.case using assms by (simp add: enqueue_def DynamicQueue_init_def)
  have b: "bfs g vert1_id vert2_id = bfs_while g vert2_id ?st"
    using assms by (simp add: bfs_def)
  from bfs_while_correct[OF inv] obtain r where
    r: "bfs_while g vert2_id ?st = Some (Inr r)"
    "case r of None \<Rightarrow> (vert1_id, vert2_id) \<notin> (edge_rel g)\<^sup>+ | Some f \<Rightarrow> bfs_found g vert1_id vert2_id f"
    by blast
  show ?thesis
  proof (cases r)
    case None
    then show ?thesis using r b by simp
  next
    case (Some f)
    then have "(vert1_id, vert2_id) \<in> (edge_rel g)\<^sup>+" using r(2) bfs_found_reachable by simp
    then show ?thesis using r b Some by simp
  qed
qed

lemma min_edges_graph_two: "min_edges graph_two 0 1 = 1"
proof -
  have e: "(0, 1) \<in> edge_rel graph_two"
    by (simp add: edge_rel_def graph_two_def vertices_def get_edge_def get_item_def)
  show ?thesis
    unfolding min_edges_def
  proof (rule Least_equality)
    show "(0, 1) \<in> edge_rel graph_two ^^ 1" using e by simp
    fix y assume "(0::nat, 1::nat) \<in> edge_rel graph_two ^^ y"
    then show "1 \<le> y" by (cases y) auto
  qed
qed

text \<open>
  C3 (for a reachable target \<open>bfs\<close> returns a pair in which \<open>distances[target]\<close> is the
  least number of edges from the source to the target, and \<open>None\<close> for an unreachable
  one).  The code does not compute that number: \<open>distances\<close> starts at \<open>-1\<close> for the
  source too and \<open>distances[source]\<close> is never set to \<open>0\<close>, as \<open>dijkstra\<close>, \<open>a_star\<close> and
  \<open>greedy\<close> set it, so a neighbour of the source gets \<open>-1 + 1 = 0\<close>.  On the graph of two
  joined vertices the least number of edges from 0 to 1 is 1, \<open>bfs(0, 1)\<close> returns
  \<open>distances[1] = 0\<close>, and \<open>dijkstra(0, 1)\<close>, the edge having weight 1, returns
  \<open>distances[1] = 1\<close>.
\<close>

theorem bfs_distance_one_short:
  "bfs graph_two 0 1 = Some (Inr (Some ([- 1, 0], [- 1, 0]))) \<and>
   min_edges graph_two 0 1 = 1 \<and>
   [- 1, 0 :: int] ! 1 \<noteq> int (min_edges graph_two 0 1) \<and>
   dijkstra graph_two 0 1 = Some (Inr (Some ([0, 0], [0, 1])))"
proof -
  have 1: "bfs graph_two 0 1 = Some (Inr (Some ([- 1, 0], [- 1, 0])))" by code_simp
  have 2: "dijkstra graph_two 0 1 = Some (Inr (Some ([0, 0], [0, 1])))" by code_simp
  show ?thesis using 1 2 min_edges_graph_two by simp
qed

lemma bfs_returns_at_discovery_example:
  "(0::nat) < vertices graph_two \<and> (0, 1) \<in> (edge_rel graph_two)\<^sup>+ \<and>
   (\<exists>found. bfs graph_two 0 1 = Some (Inr (Some found)) \<and> bfs_found graph_two 0 1 found)"
proof -
  have h: "(0::nat) < vertices graph_two" by (simp add: graph_two_def vertices_def)
  have e: "(0, 1) \<in> (edge_rel graph_two)\<^sup>+"
    by (rule r_into_trancl) (simp add: edge_rel_def graph_two_def vertices_def get_edge_def get_item_def)
  show ?thesis using bfs_returns_at_discovery[OF h, of 1] h e by blast
qed

subsection \<open>WeightedGraph.dijkstra and WeightedGraph.a_star\<close>



lemma walk_in_range: "walk g p \<Longrightarrow> x \<in> set p \<Longrightarrow> x < vertices g"
  by (induction g p rule: walk.induct) (auto simp: edge_rel_def)


















































subsection \<open>Map.pathfind and Map.reset_nav_meshes\<close>

lemma bind_err_Inr: "bind_err r f = Inr y \<longleftrightarrow> (\<exists>x. r = Inr x \<and> f x = Inr y)"
  by (cases r) (simp_all add: bind_err_def)

lemma bind_run_Inr: "bind_run r f = Some (Inr y) \<longleftrightarrow> (\<exists>x. r = Some (Inr x) \<and> f x = Some (Inr y))"
proof (cases r)
  case None
  then show ?thesis by (simp add: bind_run_def)
next
  case (Some a)
  then show ?thesis by (cases a) (simp_all add: bind_run_def)
qed

lemma pop_at_update_same: "pop_at n (xs[n := v]) = pop_at n xs"
  by (simp add: pop_at_def)

lemma pop_at_map: "pop_at n (map f xs) = map f (pop_at n xs)"
  by (simp add: pop_at_def take_map drop_map)

lemma map_update_same: "f r = f (xs ! x) \<Longrightarrow> map f (xs[x := r]) = map f xs"
  by (cases "x < length xs") (simp_all add: map_update list_update_same_conv list_update_beyond)

lemma delete_row_column_update:
  assumes "x = n \<or> pop_at n r = pop_at n (m ! x)"
  shows "delete_row_column (m[x := r]) n = delete_row_column m n"
proof (cases "x = n")
  case True
  then show ?thesis by (simp add: delete_row_column_def pop_at_update_same)
next
  case False
  then have "pop_at n r = pop_at n (m ! x)" using assms by simp
  then have "map (pop_at n) (m[x := r]) = map (pop_at n) m" by (rule map_update_same)
  then show ?thesis
    unfolding delete_row_column_def pop_at_map[symmetric] by simp
qed

lemma delete_row_column_set_item:
  assumes "x = n \<or> y = n"
  shows "delete_row_column (set_item m x y w mirrored) n = delete_row_column m n"
proof -
  let ?m1 = "m[x := (m ! x)[y := w]]"
  have 1: "delete_row_column ?m1 n = delete_row_column m n"
    using assms by (intro delete_row_column_update) (auto simp: pop_at_update_same)
  have 2: "delete_row_column (?m1[y := (?m1 ! y)[x := w]]) n = delete_row_column ?m1 n"
    using assms by (intro delete_row_column_update) (auto simp: pop_at_update_same)
  show ?thesis using 1 2 by (simp add: set_item_def Let_def)
qed

lemma delete_row_column_expand:
  assumes "length m = n" "list_all (\<lambda>row. length row = n) m"
  shows "delete_row_column (expand m) n = m"
proof -
  have "pop_at n (map (\<lambda>row. row @ [0]) m @ [replicate (length m + 1) 0]) = map (\<lambda>row. row @ [0]) m"
    using assms(1) by (simp add: pop_at_def)
  moreover have "map (pop_at n) (map (\<lambda>row. row @ [0]) m) = m"
    using assms(2) by (induction m) (simp_all add: pop_at_def)
  ultimately show ?thesis by (simp add: delete_row_column_def expand_def)
qed

lemma delete_vertex_add_vertex:
  assumes "wf_graph g"
  shows "delete_vertex (add_vertex g p) (vertices g) = g"
proof -
  have "delete_row_column (expand (adjacency_matrix g)) (vertices g) = adjacency_matrix g"
    using assms by (intro delete_row_column_expand) (simp_all add: wf_graph_def)
  moreover have "pop_at (vertices g) (vertex_positions g @ [p]) = vertex_positions g"
    by (simp add: pop_at_def vertices_def)
  ultimately show ?thesis by (simp add: delete_vertex_def add_vertex_def)
qed

lemma same_but_last_refl: "same_but_last g g"
  by (simp add: same_but_last_def)

lemma same_but_last_trans: "same_but_last g g1 \<Longrightarrow> same_but_last g1 g2 \<Longrightarrow> same_but_last g g2"
  by (simp add: same_but_last_def)

lemma same_but_last_set_edge:
  assumes "set_edge g x y w mirrored False = Inr g'" and "x = vertices g - 1 \<or> y = vertices g - 1"
  shows "same_but_last g g'"
proof -
  have g': "g' = g\<lparr>adjacency_matrix := set_item (adjacency_matrix g) x y w mirrored\<rparr>"
    using assms(1) by (simp add: set_edge_def Let_def split: if_splits)
  have 1: "vertices g' = vertices g" by (simp add: g' vertices_def)
  have 2: "delete_vertex g' (vertices g - 1) = delete_vertex g (vertices g - 1)"
    using assms(2) by (simp add: g' delete_vertex_def delete_row_column_set_item)
  have 3: "wf_graph g \<longrightarrow> wf_graph g'"
    by (simp add: g' wf_graph_def vertices_def set_item_rows)
  show ?thesis using 1 2 3 by (simp add: same_but_last_def)
qed

lemma same_but_last_offer_edge:
  assumes "offer_edge g x y w = Inr g'" and "x = vertices g - 1 \<or> y = vertices g - 1"
  shows "same_but_last g g'"
proof (cases "g' = g")
  case True
  then show ?thesis by (simp add: same_but_last_refl)
next
  case False
  then have "set_edge g x y w False False = Inr g'"
    using assms(1) by (simp add: offer_edge_def split: if_splits)
  then show ?thesis using assms(2) by (rule same_but_last_set_edge)
qed

lemma same_but_last_case1:
  "add_link_case1 lg ids w = Inr lg' \<Longrightarrow> same_but_last lg lg'"
proof (induction ids arbitrary: lg)
  case Nil
  then show ?case by (simp add: same_but_last_refl)
next
  case (Cons a ids)
  from Cons.prems obtain lg1 where
    1: "set_edge lg (vertices lg - 1) a w True False = Inr lg1" and 2: "add_link_case1 lg1 ids w = Inr lg'"
    by (auto simp: bind_err_Inr)
  have "same_but_last lg lg1" using 1 by (rule same_but_last_set_edge) simp
  moreover have "same_but_last lg1 lg'" using 2 by (rule Cons.IH)
  ultimately show ?case by (rule same_but_last_trans)
qed

lemma same_but_last_precomputed:
  assumes "add_link_precomputed pa ng a b pv lg = Some (Inr lg')"
  shows "same_but_last lg lg'"
proof -
  from assms obtain returned :: "(nat list \<times> real list) option"
      and returned2 :: "(nat list \<times> real list) option" and lg1 where
    1: "(case returned of None \<Rightarrow> Inr lg
         | Some (_, distances) \<Rightarrow> if \<not> b < length distances then Inl IndexError
              else offer_edge lg (vertices lg - 1) pv (distances ! b)) = Inr lg1" and
    2: "(case returned2 of None \<Rightarrow> Inr lg1
         | Some (_, distances) \<Rightarrow> if \<not> a < length distances then Inl IndexError
              else offer_edge lg1 pv (vertices lg1 - 1) (distances ! a)) = Inr lg'"
    unfolding add_link_precomputed_def bind_run_Inr by auto
  have a: "same_but_last lg lg1"
    using 1 by (auto simp: same_but_last_refl split: option.splits prod.splits if_splits
        intro: same_but_last_offer_edge)
  have b: "same_but_last lg1 lg'"
    using 2 by (auto simp: same_but_last_refl split: option.splits prod.splits if_splits
        intro: same_but_last_offer_edge)
  show ?thesis using a b by (rule same_but_last_trans)
qed

lemma same_but_last_heuristic:
  assumes "add_link_heuristic ng a b pv lg = Some (Inr lg')"
  shows "same_but_last lg lg'"
proof -
  from assms obtain found found2 lg1 where
    1: "(if \<not> b < length found then Inl IndexError
         else if found ! b then offer_edge lg (vertices lg - 1) pv (heuristic ng a b)
         else Inr lg) = Inr lg1" and
    2: "(if \<not> a < length found2 then Inl IndexError
         else if found2 ! a then offer_edge lg1 pv (vertices lg1 - 1) (heuristic ng a b)
         else Inr lg1) = Inr lg'"
    unfolding add_link_heuristic_def bind_run_Inr by auto
  have a: "same_but_last lg lg1"
    using 1 by (auto simp: same_but_last_refl split: if_splits intro: same_but_last_offer_edge)
  have b: "same_but_last lg1 lg'"
    using 2 by (auto simp: same_but_last_refl split: if_splits intro: same_but_last_offer_edge)
  show ?thesis using a b by (rule same_but_last_trans)
qed

lemma same_but_last_case2:
  "add_link_case2 pre pa nms fn lnum prev_links lg = Some (Inr lg') \<Longrightarrow> same_but_last lg lg'"
proof (induction prev_links arbitrary: lg)
  case Nil
  then show ?case by (simp add: same_but_last_refl)
next
  case (Cons pl prev_links)
  from Cons.prems obtain nm lg1 where
    nm: "nms fn = Some nm" and
    1: "(if pre
         then add_link_precomputed pa (nav_graph nm) (get_nav_graph_link_id nm lnum)
                (get_nav_graph_link_id nm (snd pl)) (fst pl) lg
         else add_link_heuristic (nav_graph nm) (get_nav_graph_link_id nm lnum)
                (get_nav_graph_link_id nm (snd pl)) (fst pl) lg) = Some (Inr lg1)" and
    2: "add_link_case2 pre pa nms fn lnum prev_links lg1 = Some (Inr lg')"
    by (auto simp: bind_run_Inr Let_def split: option.splits)
  have "same_but_last lg lg1"
    using 1 by (auto split: if_splits intro: same_but_last_precomputed same_but_last_heuristic)
  moreover have "same_but_last lg1 lg'" using 2 by (rule Cons.IH)
  ultimately show ?case by (rule same_but_last_trans)
qed

lemma Map_add_link_frame:
  assumes r: "Map_add_link m fn lnum pre pa lw = Some (Inr m')"
  shows "floors m' = floors m" "nav_meshes m' = nav_meshes m" "reset_data m' = reset_data m"
    "same_but_last (add_vertex (link_graph m) (Vec2D 0 (of_int fn))) (link_graph m')"
proof -
  let ?lg0 = "add_vertex (link_graph m) (Vec2D 0 (of_int fn))"
  from r obtain fl where fl: "floors m fn = Some fl" "lnum < length (links fl)"
    by (auto simp: Map_add_link_def split: option.splits if_splits)
  let ?link = "links fl ! lnum"
  from r fl obtain lg1 ids1 lg2 fls2 where
    1: "(case id_indexed_nodes m (link_id ?link) of
           Some prev_link_ids \<Rightarrow> bind_err (add_link_case1 ?lg0 prev_link_ids lw) (\<lambda>lg1. Inr (lg1, id_indexed_nodes m))
         | None \<Rightarrow> Inr (?lg0, (id_indexed_nodes m)(link_id ?link \<mapsto> []))) = Inr (lg1, ids1)" and
    2: "(case floor_indexed_nodes m fn of
           Some prev_links \<Rightarrow> bind_run (add_link_case2 pre pa (nav_meshes m) fn lnum prev_links lg1)
                                 (\<lambda>lg2. Some (Inr (lg2, floor_indexed_nodes m)))
         | None \<Rightarrow> Some (Inr (lg1, (floor_indexed_nodes m)(fn \<mapsto> [])))) = Some (Inr (lg2, fls2))" and
    3: "m' = m\<lparr>link_graph := lg2,
                 id_indexed_nodes := ids1(link_id ?link \<mapsto> the (ids1 (link_id ?link)) @ [vertices lg2 - 1]),
                 floor_indexed_nodes := fls2(fn \<mapsto> the (fls2 fn) @ [(vertices lg2 - 1, lnum)]),
                 link_graph_id_indexed_nodes :=
                   (link_graph_id_indexed_nodes m)(vertices lg2 - 1 \<mapsto> (lnum, fn, link_id ?link))\<rparr>"
    by (auto simp: Map_add_link_def Let_def bind_run_Inr)
  show "floors m' = floors m" "nav_meshes m' = nav_meshes m" "reset_data m' = reset_data m"
    by (simp_all add: 3)
  have a: "same_but_last ?lg0 lg1"
    using 1 by (auto simp: bind_err_Inr same_but_last_refl split: option.splits intro: same_but_last_case1)
  have b: "same_but_last lg1 lg2"
    using 2 by (auto simp: bind_run_Inr same_but_last_refl split: option.splits intro: same_but_last_case2)
  show "same_but_last ?lg0 (link_graph m')"
    using same_but_last_trans[OF a b] by (simp add: 3)
qed

lemma Map_add_link_link_graph:
  assumes r: "Map_add_link m fn lnum pre pa lw = Some (Inr m')" and wf: "wf_graph (link_graph m)"
  shows "wf_graph (link_graph m')" "vertices (link_graph m') = Suc (vertices (link_graph m))"
    "delete_vertex (link_graph m') (vertices (link_graph m') - 1) = link_graph m"
proof -
  let ?lg0 = "add_vertex (link_graph m) (Vec2D 0 (of_int fn))"
  have s: "same_but_last ?lg0 (link_graph m')" using Map_add_link_frame(4)[OF r] .
  have wf0: "wf_graph ?lg0" using wf by (rule wf_graph_add_vertex)
  show "wf_graph (link_graph m')" using s wf0 by (simp add: same_but_last_def)
  show v: "vertices (link_graph m') = Suc (vertices (link_graph m))"
    using s by (simp add: same_but_last_def)
  have "delete_vertex (link_graph m') (vertices ?lg0 - 1) = delete_vertex ?lg0 (vertices ?lg0 - 1)"
    using s by (simp add: same_but_last_def)
  then show "delete_vertex (link_graph m') (vertices (link_graph m') - 1) = link_graph m"
    using v delete_vertex_add_vertex[OF wf] by simp
qed

lemma pop_link_add_link:
  assumes "fs k = Some (add_link fl lid pos)"
  shows "pop_link fs k = Inr (fs(k \<mapsto> fl))"
  using assms by (simp add: pop_link_def add_link_def)

lemma pathfind_begin_frame:
  assumes r: "pathfind_begin m sp sf ep ef = Inr (m1, sl, el, c1, c2)"
  shows "link_graph m1 = link_graph m" "nav_meshes m sf = Some c1" "nav_meshes m ef = Some c2"
    "\<exists>nm1 nm2. nav_meshes m1 = (nav_meshes m)(sf \<mapsto> nm1, ef \<mapsto> nm2)"
    "bind_err (pop_link (floors m1) sf) (\<lambda>floors1. pop_link floors1 ef) = Inr (floors m)"
    "reset_data m1 = reset_data m"
proof -
  from r obtain fs where fs: "floors m sf = Some fs"
    by (auto simp: pathfind_begin_def split: option.splits)
  let ?floors1 = "(floors m)(sf \<mapsto> add_link fs START sp)"
  from r fs obtain fe where fe: "?floors1 ef = Some fe"
    by (auto simp: pathfind_begin_def Let_def split: option.splits)
  let ?floors2 = "?floors1(ef \<mapsto> add_link fe END ep)"
  from r fs fe obtain nm1 nm_end nm2 where
    c1: "nav_meshes m sf = Some c1" and
    c2: "(if ef = sf then Some c1 else nav_meshes m ef) = Some c2" and
    nm1: "NavMesh_add_link c1 sp = Inr nm1" and
    nme: "((nav_meshes m)(sf \<mapsto> nm1)) ef = Some nm_end" and
    nm2: "NavMesh_add_link nm_end ep = Inr nm2" and
    m1: "m1 = m\<lparr>floors := ?floors2, nav_meshes := (nav_meshes m)(sf \<mapsto> nm1, ef \<mapsto> nm2)\<rparr>"
    by (auto simp: pathfind_begin_def Let_def bind_err_Inr split: option.splits)
  show "link_graph m1 = link_graph m" "reset_data m1 = reset_data m" by (simp_all add: m1)
  show "nav_meshes m sf = Some c1" by (rule c1)
  show "nav_meshes m ef = Some c2" using c1 c2 by (auto split: if_splits)
  show "\<exists>nm1 nm2. nav_meshes m1 = (nav_meshes m)(sf \<mapsto> nm1, ef \<mapsto> nm2)"
    by (intro exI[of _ nm1] exI[of _ nm2]) (simp add: m1)
  show "bind_err (pop_link (floors m1) sf) (\<lambda>floors1. pop_link floors1 ef) = Inr (floors m)"
  proof (cases "ef = sf")
    case True
    then have fe': "fe = add_link fs START sp" using fe by simp
    have 1: "pop_link ?floors2 sf = Inr (?floors2(sf \<mapsto> fe))"
      using True by (intro pop_link_add_link[of _ _ _ END ep]) simp
    have 2: "pop_link (?floors2(sf \<mapsto> fe)) sf = Inr ((?floors2(sf \<mapsto> fe))(sf \<mapsto> fs))"
      unfolding fe' by (intro pop_link_add_link[of _ _ _ START sp]) simp
    have 3: "(?floors2(sf \<mapsto> fe))(sf \<mapsto> fs) = floors m"
      using True fs by (auto simp: fun_eq_iff)
    show ?thesis using True 1 2 3 by (simp add: m1 bind_err_def)
  next
    case False
    then have fe': "floors m ef = Some fe" using fe by simp
    have 1: "pop_link ?floors2 sf = Inr (?floors2(sf \<mapsto> fs))"
      using False by (intro pop_link_add_link[of _ _ _ START sp]) simp
    have 2: "pop_link (?floors2(sf \<mapsto> fs)) ef = Inr ((?floors2(sf \<mapsto> fs))(ef \<mapsto> fe))"
      using False by (intro pop_link_add_link[of _ _ _ END ep]) simp
    have 3: "(?floors2(sf \<mapsto> fs))(ef \<mapsto> fe) = floors m"
      using False fs fe' by (auto simp: fun_eq_iff)
    show ?thesis using False 1 2 3 by (simp add: m1 bind_err_def)
  qed
qed

lemma pathfind_end_frame:
  assumes r: "pathfind_end m sf ef ofi olg c1 c2 = Inr m'"
  shows "bind_err (pop_link (floors m) sf) (\<lambda>floors1. pop_link floors1 ef) = Inr (floors m')"
    "link_graph m' =
       delete_vertex (delete_vertex (link_graph m) (vertices (link_graph m) - 1))
         (vertices (delete_vertex (link_graph m) (vertices (link_graph m) - 1)) - 1)"
    "nav_meshes m' = nav_meshes m" "reset_data m' = Some (sf, ef, c1, c2)"
    "id_indexed_nodes m' START = None" "id_indexed_nodes m' END = None"
proof -
  from r obtain floors1 floors2 where
    1: "pop_link (floors m) sf = Inr floors1" and 2: "pop_link floors1 ef = Inr floors2" and
    3: "m' = m\<lparr>floors := floors2,
                link_graph := delete_vertex (delete_vertex (link_graph m) (vertices (link_graph m) - 1))
                  (vertices (delete_vertex (link_graph m) (vertices (link_graph m) - 1)) - 1),
                id_indexed_nodes := (id_indexed_nodes m)(START := None, END := None),
                floor_indexed_nodes := ofi,
                link_graph_id_indexed_nodes := olg,
                reset_data := Some (sf, ef, c1, c2)\<rparr>"
    by (auto simp: pathfind_end_def bind_err_Inr Let_def split: if_splits)
  show "bind_err (pop_link (floors m) sf) (\<lambda>floors1. pop_link floors1 ef) = Inr (floors m')"
    using 1 2 by (simp add: 3 bind_err_def)
  show "link_graph m' =
       delete_vertex (delete_vertex (link_graph m) (vertices (link_graph m) - 1))
         (vertices (delete_vertex (link_graph m) (vertices (link_graph m) - 1)) - 1)"
    "nav_meshes m' = nav_meshes m" "reset_data m' = Some (sf, ef, c1, c2)"
    "id_indexed_nodes m' START = None" "id_indexed_nodes m' END = None"
    by (simp_all add: 3)
qed

text \<open>
  C7 (after \<open>pathfind\<close> has returned and the caller has called \<open>reset_nav_meshes\<close>, the
  floors with their lists of links, the link graph and the navigation meshes of the map
  are what they were before the call).  The map is one that the classes build
  (\<open>wf_map\<close>).  Whatever \<open>pathfind\<close> returns,
  a dictionary of paths or \<open>None\<close>, the two links appended to the floors are popped again,
  every edge that \<open>__add_link\<close> writes touches the vertex it has just added, so deleting
  the last two vertices gives the link graph back, and \<open>reset_nav_meshes\<close> puts the two
  copies taken before \<open>NavMesh.add_link\<close> back in place.
\<close>

theorem pathfind_then_reset_restores:
  assumes wfm: "wf_map m"
    and r: "pathfind m start_pos start_floor_num end_pos end_floor_num primary_algorithm
              link_algorithm precompute_link_dist link_weight = Some (Inr (final_paths, m'))"
  shows "floors (reset_nav_meshes m') = floors m \<and>
         link_graph (reset_nav_meshes m') = link_graph m \<and>
         nav_meshes (reset_nav_meshes m') = nav_meshes m"
proof -
  from r obtain m1 sl el c1 c2 m2 m3 where
    b: "pathfind_begin m start_pos start_floor_num end_pos end_floor_num = Inr (m1, sl, el, c1, c2)" and
    a1: "Map_add_link m1 start_floor_num sl precompute_link_dist primary_algorithm 0 = Some (Inr m2)" and
    a2: "Map_add_link m2 end_floor_num el precompute_link_dist primary_algorithm 0 = Some (Inr m3)" and
    e: "pathfind_end m3 start_floor_num end_floor_num (floor_indexed_nodes m)
          (link_graph_id_indexed_nodes m) c1 c2 = Inr m'"
    by (auto simp: pathfind_def bind_run_Inr)
  note B = pathfind_begin_frame[OF b]
  note A1 = Map_add_link_frame[OF a1]
  note A2 = Map_add_link_frame[OF a2]
  note E = pathfind_end_frame[OF e]
  have wf: "wf_graph (link_graph m)" using wfm by (simp add: wf_map_def)
  have wf1: "wf_graph (link_graph m1)" using wf B(1) by simp
  note G1 = Map_add_link_link_graph[OF a1 wf1]
  note G2 = Map_add_link_link_graph[OF a2 G1(1)]
  have fl: "floors m' = floors m"
    using E(1) B(5) A1(1) A2(1) by simp
  have lg: "link_graph m' = link_graph m"
    using E(2) G2(3) G1(3) B(1) by simp
  from B(4) obtain nm1 nm2 where
    nm: "nav_meshes m1 = (nav_meshes m)(start_floor_num \<mapsto> nm1, end_floor_num \<mapsto> nm2)"
    by blast
  have nms': "nav_meshes m' = (nav_meshes m)(start_floor_num \<mapsto> nm1, end_floor_num \<mapsto> nm2)"
    using E(3) A2(2) A1(2) nm by simp
  have "nav_meshes (reset_nav_meshes m') =
          (nav_meshes m')(start_floor_num \<mapsto> c1, end_floor_num \<mapsto> c2)"
    using E(4) by (simp add: reset_nav_meshes_def)
  also have "\<dots> = nav_meshes m"
    using B(2,3) unfolding nms' by (auto simp: fun_eq_iff)
  finally have nv: "nav_meshes (reset_nav_meshes m') = nav_meshes m" .
  have "floors (reset_nav_meshes m') = floors m'" "link_graph (reset_nav_meshes m') = link_graph m'"
    using E(4) by (simp_all add: reset_nav_meshes_def)
  then show ?thesis using fl lg nv by simp
qed

lemmas pathfind_example_defs =
  NavMesh_add_link_def sort_region_nums_by_dist_from_def point_in_polygon_def perp_dot_prod_def
  vec_sub_def squared_distance_between_def squared_magnitude_def
  bind_err_def bind_run_def Let_def add_vertex_def expand_def vertices_def SquareMat_def
  set_edge_def set_item_def get_edge_def get_edge_val_def get_item_def
  WeightedGraph_init_def Floor_init_def add_link_def START_def END_def
  distance_between_examples get_nav_graph_link_id_def

lemma pathfind_square:
  "\<exists>m'. pathfind map_square (Vec2D 0 0) 0 (Vec2D 1 0) 0 DIJKSTRA DIJKSTRA True 1 =
          Some (Inr (Some [(0, 0) \<mapsto> [0, 1]], m'))"
  by (simp add: pathfind_def pathfind_begin_def map_square_def nav_mesh_square_def pathfind_example_defs upt_conv_Cons
      Map_add_link_def add_link_precomputed_def primary_search_def offer_edge_def
      DIJKSTRA_def A_STAR_def GREEDY_def BFS_def link_search_def pathfind_paths_def
      link_path_while.simps floor_path_while.simps lookup_vert_def py_index_def
      pathfind_end_def pop_link_def delete_vertex_def delete_row_column_def
      dijkstra_def dijkstra_while.simps pq_empty_def pq_dequeue_def
      extract_root_def pop_at_def pq_enqueue_def insert_item_def
      decrease_priority_or_enqueue_def decrease_priority_or_insert_def get_index_def
      left_index_def right_index_def parent_index_def up_heapify.simps down_heapify.simps min_child_def)

theorem pathfind_then_reset_restores_witness:
  "wf_map map_square \<and>
   (\<exists>m'. pathfind map_square (Vec2D 0 0) 0 (Vec2D 1 0) 0 DIJKSTRA DIJKSTRA True 1 =
            Some (Inr (Some [(0, 0) \<mapsto> [0, 1]], m')) \<and>
         floors (reset_nav_meshes m') = floors map_square \<and>
         link_graph (reset_nav_meshes m') = link_graph map_square \<and>
         nav_meshes (reset_nav_meshes m') = nav_meshes map_square)"
proof -
  have wf: "wf_map map_square"
    by (simp add: wf_map_def wf_nav_mesh_def map_square_def nav_mesh_square_def
        WeightedGraph_init_def wf_graph_def vertices_def SquareMat_def list_all_iff)
  from pathfind_square obtain m' where
    r: "pathfind map_square (Vec2D 0 0) 0 (Vec2D 1 0) 0 DIJKSTRA DIJKSTRA True 1 =
          Some (Inr (Some [(0, 0) \<mapsto> [0, 1]], m'))"
    by blast
  show ?thesis using pathfind_then_reset_restores[OF wf r] wf r by blast
qed

end
